theory Spec2Isabelle
  imports Main "HOL-Library.Sublist"
begin

section \<open>Execution errors carrying result handles (solver/llbsolver/errdefs/exec.go)\<close>

text \<open>
  A \<open>solver.Result\<close> is an interface value: \<open>None\<close> is the nil interface, \<open>Some h\<close> the
  handle with identity \<open>h\<close>. Go's \<open>error\<close> interface is an optional message in the same way.
\<close>

type_synonym handle = nat
type_synonym Result = "handle option"
type_synonym error = "string option"

record ExecError =
  error :: string
  Inputs :: "Result list"
  Mounts :: "Result list"
  OwnerBorrowed :: bool

text \<open>
  One \<open>for _, res := range ...\<close> loop of \<open>EachRef\<close>. The map \<open>m\<close> of handles already seen
  and the first error \<open>err\<close> are the loop's variables; \<open>fn\<close> acts on a world \<open>'w\<close>.
\<close>

fun eachRef_loop ::
  "(handle \<Rightarrow> 'w \<Rightarrow> error \<times> 'w) \<Rightarrow> Result list \<Rightarrow> handle set \<Rightarrow> error \<Rightarrow> 'w
     \<Rightarrow> handle set \<times> error \<times> 'w" where
  "eachRef_loop fn [] m err w = (m, err, w)"
| "eachRef_loop fn (res # rest) m err w =
     (case res of
        None \<Rightarrow> eachRef_loop fn rest m err w
      | Some h \<Rightarrow>
          if h \<in> m then eachRef_loop fn rest m err w
          else (case fn h w of (err1, w') \<Rightarrow>
                  eachRef_loop fn rest (insert h m)
                    (if err1 \<noteq> None \<and> err = None then err1 else err) w'))"

definition EachRef :: "ExecError \<Rightarrow> (handle \<Rightarrow> 'w \<Rightarrow> error \<times> 'w) \<Rightarrow> 'w \<Rightarrow> error \<times> 'w" where
  "EachRef e fn w =
     (case eachRef_loop fn (Inputs e) {} None w of (m, err, w1) \<Rightarrow>
        (case eachRef_loop fn (Mounts e) m err w1 of (m2, err2, w2) \<Rightarrow> (err2, w2)))"

text \<open>
  \<open>r.Release(ctx)\<close> is a method of the handle's implementation. Its effect is recorded in a
  log of released handles; the closure in \<open>Release\<close> drops whatever it returns and yields nil.
\<close>

definition releaseRef :: "handle \<Rightarrow> handle list \<Rightarrow> error \<times> handle list" where
  "releaseRef r w = (None, w @ [r])"

definition Release :: "ExecError \<Rightarrow> handle list \<Rightarrow> error \<times> ExecError \<times> handle list" where
  "Release e w =
     (if OwnerBorrowed e then (None, e, w)
      else (case EachRef e releaseRef w of (err, w') \<Rightarrow>
              (err, e\<lparr>OwnerBorrowed := True\<rparr>, w')))"

text \<open>\<open>n\<close> successive calls of \<open>Release\<close> on the same error object.\<close>

primrec Release_times :: "nat \<Rightarrow> ExecError \<Rightarrow> handle list \<Rightarrow> ExecError \<times> handle list" where
  "Release_times 0 e w = (e, w)"
| "Release_times (Suc n) e w = (case Release e w of (err, e', w') \<Rightarrow> Release_times n e' w')"

definition WithExecErrorWithContext ::
  "error \<Rightarrow> Result list \<Rightarrow> Result list \<Rightarrow> ExecError option" where
  "WithExecErrorWithContext err inputs mounts =
     (case err of
        None \<Rightarrow> None
      | Some msg \<Rightarrow>
          Some \<lparr>error = msg, Inputs = inputs, Mounts = mounts, OwnerBorrowed = False\<rparr>)"

definition WithExecError :: "error \<Rightarrow> Result list \<Rightarrow> Result list \<Rightarrow> ExecError option" where
  "WithExecError err inputs mounts = WithExecErrorWithContext err inputs mounts"

text \<open>
  The distinct non-nil handles of a list, in the order of their first occurrence: what the
  specification says is released.
\<close>

fun distinct_handles :: "Result list \<Rightarrow> handle list" where
  "distinct_handles [] = []"
| "distinct_handles (None # rs) = distinct_handles rs"
| "distinct_handles (Some h # rs) = h # removeAll h (distinct_handles rs)"

definition ee0 :: ExecError where
  "ee0 = \<lparr>error = ''exit code: 1'', Inputs = [Some 1, None, Some 2, Some 1],
          Mounts = [Some 2, Some 3, None], OwnerBorrowed = False\<rparr>"

section \<open>Data of the scheduler (solver/scheduler.go)\<close>

text \<open>
  Pointers are addresses into stores held by the scheduler state: \<open>edge_ref\<close> for \<open>*edge\<close>,
  \<open>pipe_ref\<close> for \<open>*edgePipe\<close>, \<open>disp_ref\<close> for \<open>*dispatcher\<close>. A pointer that may be nil is an
  \<open>option\<close>. The declarations of \<open>edge\<close>, \<open>dep\<close>, \<open>edgePipe\<close> and the pipe package are not
  part of the files at hand; the records below hold the fields that scheduler.go reads
  and writes.
\<close>

type_synonym edge_ref = nat
type_synonym pipe_ref = nat
type_synonym disp_ref = nat
type_synonym CacheKey = string

datatype panic =
  NilDereference | IndexOutOfRange nat nat | CloseOfClosedChannel | TypeAssertionFailed

record VertexOptions =
  IgnoreCache :: bool
  SkipEdgeMerge :: bool

record vertex =
  Digest :: string
  Options :: VertexOptions

record Edge =
  Index :: nat
  Vertex :: vertex

record CacheKeyWithSelector =
  Selector :: string
  CacheKey :: CacheKey

record expDep =
  index :: nat
  key :: CacheKeyWithSelector

text \<open>\<open>Deps\<close> holds the \<open>Selector\<close> of each entry of \<open>CacheMap.Deps\<close>.\<close>

record CacheMap =
  Deps :: "string list"

record CachedResult =
  ID :: handle
  CacheKeys :: "CacheKey list"

record dep =
  keys :: "CacheKey list"
  slowCacheKey :: "CacheKey option"
  result :: "CachedResult option"

text \<open>
  The field \<open>err\<close> is the error an edge has been failed with. Modelled from the spec:
  \<open>markFailed\<close> belongs to the edge state machine, which is not among the files; the spec
  says it marks the edge failed with the given error.
\<close>

record edge =
  edge :: Edge
  deps :: "dep list"
  cacheMap :: "CacheMap option"
  secondaryExporters :: "expDep list"
  hasActiveOutgoing :: bool
  keysDidChange :: bool
  err :: error

datatype edgeStatusType =
  edgeStatusInitial | edgeStatusCacheFast | edgeStatusCacheSlow | edgeStatusComplete

record edgeRequest =
  desiredState :: edgeStatusType

text \<open>
  Go's \<open>any\<close> in \<open>Status.Value\<close>: nil, an \<open>*edgeState\<close> (of which only the field \<open>result\<close> is
  read here), or a value of another type.
\<close>

datatype any_value = NilValue | EdgeStateValue "CachedResult option" | OtherValue

record Status =
  Completed :: bool
  Err :: error
  Value :: any_value

text \<open>The three closures that scheduler.go installs as completion callbacks.\<close>

datatype callback = SignalFrom | SignalTarget | NotifyWaiter

text \<open>
  Modelled from the spec: the pipe package is not among the files. A pipe carries a request
  payload, the status its sender has published (\<open>SenderStatus\<close>, read by
  \<open>Sender.Status()\<close>), the status its receiver has consumed (\<open>ReceiverStatus\<close>, read by
  \<open>Receiver.Status()\<close>) and a cancellation mark. \<open>Target\<close> and \<open>From\<close> are the fields of
  \<open>edgePipe\<close> itself.
\<close>

record edgePipe =
  Target :: "edge_ref option"
  From :: "edge_ref option"
  Payload :: edgeRequest
  SenderStatus :: Status
  ReceiverStatus :: Status
  Canceled :: bool
  OnSendCompletion :: "callback option"
  OnReceiveCompletion :: "callback option"

record dispatcher =
  d_next :: "disp_ref option"
  d_e :: "edge_ref option"

text \<open>
  The scheduler with the objects it points to. \<open>q_next\<close> and \<open>q_last\<close> are the fields \<open>next\<close>
  and \<open>last\<close>; \<open>dispatchers\<close>, \<open>pipes\<close> and \<open>edges\<close> are the stores, \<open>dispAlloc\<close> and \<open>pipeAlloc\<close>
  the next unused addresses. \<open>ef\<close> is the state behind the \<open>edgeFactory\<close> interface,
  \<open>keyIndex\<close> the key index all edges share, \<open>condSignalled\<close> the state of the stateful
  condition variable, and \<open>waitClosed\<close> the root pipes whose \<open>wait\<close> channel (made by
  \<open>build\<close>) has been closed.
\<close>

record ('f, 'i) scheduler =
  waitq :: "edge_ref option set"
  q_next :: "disp_ref option"
  q_last :: "disp_ref option"
  dispatchers :: "disp_ref \<Rightarrow> dispatcher"
  dispAlloc :: disp_ref
  condSignalled :: bool
  incoming :: "edge_ref \<rightharpoonup> pipe_ref list"
  outgoing :: "edge_ref \<rightharpoonup> pipe_ref list"
  pipes :: "pipe_ref \<Rightarrow> edgePipe"
  pipeAlloc :: pipe_ref
  edges :: "edge_ref \<Rightarrow> edge"
  ef :: 'f
  keyIndex :: 'i
  waitClosed :: "pipe_ref set"

text \<open>
  The collaborators whose code is not among the files, as parameters: the three methods
  of the \<open>edgeFactory\<close> interface, \<open>LoadOrStore\<close> of the key index, and \<open>unpark\<close>,
  \<open>currentIndexKey\<close> and \<open>isDep\<close> of the edge state machine, and \<open>CloneCachedResult\<close> of a
  result. \<open>unpark\<close> may change the whole scheduler state: it completes pipes and asks the
  pipe factory for new ones. \<open>hasOwner f a b\<close> is the answer to the call \<open>hasOwner(a, b)\<close>,
  by which \<open>dispatch\<close> asks whether the edge \<open>a\<close> is owned by the edge \<open>b\<close>.
\<close>

record ('f, 'i) env =
  getEdge :: "'f \<Rightarrow> Edge \<Rightarrow> edge_ref option"
  setEdge :: "Edge \<Rightarrow> edge_ref \<Rightarrow> 'f \<Rightarrow> 'f"
  hasOwner :: "'f \<Rightarrow> Edge \<Rightarrow> Edge \<Rightarrow> bool"
  LoadOrStore :: "CacheKey \<Rightarrow> edge_ref \<Rightarrow> 'i \<Rightarrow> edge_ref option \<times> 'i"
  currentIndexKey :: "edge \<Rightarrow> CacheKey option"
  isDep :: "edge \<Rightarrow> edge \<Rightarrow> bool"
  unpark :: "edge_ref \<Rightarrow> pipe_ref list \<Rightarrow> pipe_ref list \<Rightarrow> pipe_ref list
               \<Rightarrow> ('f, 'i) scheduler \<Rightarrow> ('f, 'i) scheduler"
  CloneCachedResult :: "CachedResult \<Rightarrow> CachedResult"

text \<open>Reading a Go map of slices: a missing key yields the nil slice.\<close>

definition inc_of :: "('f, 'i) scheduler \<Rightarrow> edge_ref \<Rightarrow> pipe_ref list" where
  "inc_of s x = (case incoming s x of None \<Rightarrow> [] | Some ps \<Rightarrow> ps)"

definition out_of :: "('f, 'i) scheduler \<Rightarrow> edge_ref \<Rightarrow> pipe_ref list" where
  "out_of s x = (case outgoing s x of None \<Rightarrow> [] | Some ps \<Rightarrow> ps)"

subsection \<open>The wait queue: \<open>signal\<close> and the dequeue step of \<open>loop\<close>\<close>

text \<open>\<open>signal\<close> (lines 193-207), run under \<open>muQ\<close>.\<close>

definition signal :: "edge_ref option \<Rightarrow> ('f, 'i) scheduler \<Rightarrow> ('f, 'i) scheduler" where
  "signal x s =
     (if x \<notin> waitq s then
        (let d = dispAlloc s;
             s1 = s\<lparr>dispatchers := (dispatchers s)(d := \<lparr>d_next = None, d_e = x\<rparr>),
                    dispAlloc := Suc d\<rparr>;
             s2 = (case q_last s1 of
                     None \<Rightarrow> s1\<lparr>q_next := Some d\<rparr>
                   | Some l \<Rightarrow>
                       s1\<lparr>dispatchers := (dispatchers s1)(l := (dispatchers s1 l)\<lparr>d_next := Some d\<rparr>)\<rparr>)
         in s2\<lparr>q_last := Some d, waitq := insert x (waitq s2), condSignalled := True\<rparr>)
      else s)"

text \<open>The block of \<open>loop\<close> that runs under \<open>muQ\<close> (lines 81-90); it yields \<open>l\<close>.\<close>

definition dequeue :: "('f, 'i) scheduler \<Rightarrow> disp_ref option \<times> ('f, 'i) scheduler" where
  "dequeue s =
     (case q_next s of
        None \<Rightarrow> (None, s)
      | Some l \<Rightarrow>
          (let s1 = (if Some l = q_last s then s\<lparr>q_last := None\<rparr> else s);
               s2 = s1\<lparr>q_next := d_next (dispatchers s1 l)\<rparr>
           in (Some l, s2\<lparr>waitq := waitq s2 - {d_e (dispatchers s2 l)}\<rparr>)))"

text \<open>
  The dispatcher nodes linked from a pointer: \<open>fifo_seg h p ds\<close> holds when following
  \<open>next\<close> from \<open>p\<close> visits exactly the nodes \<open>ds\<close> and then reaches nil.
\<close>

fun fifo_seg :: "(disp_ref \<Rightarrow> dispatcher) \<Rightarrow> disp_ref option \<Rightarrow> disp_ref list \<Rightarrow> bool" where
  "fifo_seg h p [] = (p = None)"
| "fifo_seg h p (d # ds) = (p = Some d \<and> fifo_seg h (d_next (h d)) ds)"

definition fifo_edges :: "('f, 'i) scheduler \<Rightarrow> disp_ref list \<Rightarrow> edge_ref option list" where
  "fifo_edges s ds = map (\<lambda>d. d_e (dispatchers s d)) ds"

text \<open>
  The queue invariant, for the list \<open>ds\<close> of nodes linked from \<open>next\<close>: the nodes are
  allocated and distinct, \<open>last\<close> is the final node (nil for the empty queue), no edge
  is queued twice, and \<open>waitq\<close> is the set of the queued edges.
\<close>

definition queue_inv :: "('f, 'i) scheduler \<Rightarrow> disp_ref list \<Rightarrow> bool" where
  "queue_inv s ds =
     (fifo_seg (dispatchers s) (q_next s) ds
      \<and> distinct ds
      \<and> list_all (\<lambda>d. d < dispAlloc s) ds
      \<and> q_last s = (if ds = [] then None else Some (last ds))
      \<and> distinct (fifo_edges s ds)
      \<and> waitq s = set (fifo_edges s ds))"

text \<open>
  The edges that the next \<open>n\<close> iterations of \<open>loop\<close> hand to \<open>dispatch\<close> when nothing is
  signalled in between: each iteration dequeues one node \<open>l\<close> and passes \<open>l.e\<close> on.
\<close>

fun drain :: "nat \<Rightarrow> ('f, 'i) scheduler \<Rightarrow> edge_ref option list" where
  "drain 0 s = []"
| "drain (Suc n) s =
     (case dequeue s of
        (None, s') \<Rightarrow> []
      | (Some l, s') \<Rightarrow> d_e (dispatchers s' l) # drain n s')"

text \<open>
  Runs of the two sections that \<open>muQ\<close> guards, in any interleaving: a call of \<open>signal\<close>, or
  the dequeue step of an iteration of the loop. \<open>stays_pending x ops s\<close> says that \<open>x\<close> is
  not dequeued while \<open>ops\<close> run from \<open>s\<close>: it is in \<open>waitq\<close> after each of them.
\<close>

datatype qop = Sig "edge_ref option" | Deq

fun run_op :: "qop \<Rightarrow> ('f, 'i) scheduler \<Rightarrow> ('f, 'i) scheduler" where
  "run_op (Sig y) s = signal y s"
| "run_op Deq s = snd (dequeue s)"

fun run_ops :: "qop list \<Rightarrow> ('f, 'i) scheduler \<Rightarrow> ('f, 'i) scheduler" where
  "run_ops [] s = s"
| "run_ops (a # ops) s = run_ops ops (run_op a s)"

fun stays_pending :: "edge_ref option \<Rightarrow> qop list \<Rightarrow> ('f, 'i) scheduler \<Rightarrow> bool" where
  "stays_pending x [] s = True"
| "stays_pending x (a # ops) s = (x \<in> waitq (run_op a s) \<and> stays_pending x ops (run_op a s))"

text \<open>
  \<open>newScheduler\<close> (lines 13-29), for a factory state, a key index and a store of edges. The
  stores of pipes and dispatcher nodes have nothing allocated; their cells hold zero
  values.
\<close>

definition zeroStatus :: Status where
  "zeroStatus = \<lparr>Completed = False, Err = None, Value = NilValue\<rparr>"

definition zeroPipe :: edgePipe where
  "zeroPipe = \<lparr>Target = None, From = None, Payload = \<lparr>desiredState = edgeStatusInitial\<rparr>,
     SenderStatus = zeroStatus, ReceiverStatus = zeroStatus, Canceled = False,
     OnSendCompletion = None, OnReceiveCompletion = None\<rparr>"

definition newScheduler :: "'f \<Rightarrow> 'i \<Rightarrow> (edge_ref \<Rightarrow> edge) \<Rightarrow> ('f, 'i) scheduler" where
  "newScheduler f i es =
     \<lparr>waitq = {}, q_next = None, q_last = None,
      dispatchers = (\<lambda>_. \<lparr>d_next = None, d_e = None\<rparr>), dispAlloc = 0,
      condSignalled = False, incoming = Map.empty, outgoing = Map.empty,
      pipes = (\<lambda>_. zeroPipe), pipeAlloc = 0, edges = es, ef = f, keyIndex = i,
      waitClosed = {}\<rparr>"

subsection \<open>Pipes\<close>

text \<open>
  Modelled from the spec: \<open>receive()\<close> consumes the last update the sender emitted and tells
  whether new data was observed.
\<close>

definition Receive :: "edgePipe \<Rightarrow> bool \<times> edgePipe" where
  "Receive P =
     (if ReceiverStatus P \<noteq> SenderStatus P then (True, P\<lparr>ReceiverStatus := SenderStatus P\<rparr>)
      else (False, P))"

text \<open>
  A completion callback of pipe \<open>p\<close>. \<open>SignalFrom\<close> is \<open>s.signal(p.From)\<close> (lines 255-259 and
  278-282), \<open>SignalTarget\<close> is \<open>s.signal(p.Target)\<close> (lines 263-267), \<open>NotifyWaiter\<close> is the
  closure of \<open>build\<close> (lines 221-226), which receives and closes \<open>wait\<close> once the receiver
  sees the pipe completed. Closing a closed channel panics.
\<close>

definition fire :: "callback \<Rightarrow> pipe_ref \<Rightarrow> ('f, 'i) scheduler \<Rightarrow> panic + ('f, 'i) scheduler" where
  "fire cb p s =
     (case cb of
        SignalFrom \<Rightarrow> Inr (signal (From (pipes s p)) s)
      | SignalTarget \<Rightarrow> Inr (signal (Target (pipes s p)) s)
      | NotifyWaiter \<Rightarrow>
          (case Receive (pipes s p) of (ok, P') \<Rightarrow>
             (let s1 = s\<lparr>pipes := (pipes s)(p := P')\<rparr>
              in if Completed (ReceiverStatus P') then
                   (if p \<in> waitClosed s1 then Inl CloseOfClosedChannel
                    else Inr (s1\<lparr>waitClosed := insert p (waitClosed s1)\<rparr>))
                 else Inr s1)))"

definition fire_opt ::
  "callback option \<Rightarrow> pipe_ref \<Rightarrow> ('f, 'i) scheduler \<Rightarrow> panic + ('f, 'i) scheduler" where
  "fire_opt cb p s = (case cb of None \<Rightarrow> Inr s | Some c \<Rightarrow> fire c p s)"

text \<open>
  Modelled from the spec: \<open>cancel()\<close> moves the pipe to cancelled only if it is not already
  completed, fires both completion callbacks once, and is idempotent.
\<close>

definition receiverCancel :: "pipe_ref \<Rightarrow> ('f, 'i) scheduler \<Rightarrow> panic + ('f, 'i) scheduler" where
  "receiverCancel p s =
     (if Completed (SenderStatus (pipes s p)) \<or> Canceled (pipes s p) then Inr s
      else
        (let s1 = s\<lparr>pipes := (pipes s)(p := (pipes s p)\<lparr>Canceled := True\<rparr>)\<rparr>
         in case fire_opt (OnSendCompletion (pipes s1 p)) p s1 of
              Inl pn \<Rightarrow> Inl pn
            | Inr s2 \<Rightarrow> fire_opt (OnReceiveCompletion (pipes s2 p)) p s2))"

text \<open>
  \<open>newPipe\<close> (lines 246-269): creates the pipe for a request, signals the target and
  registers the pipe in the maps. The new pipe starts with the zero status.
\<close>

definition newPipe ::
  "edge_ref \<Rightarrow> edge_ref option \<Rightarrow> edgeRequest \<Rightarrow> ('f, 'i) scheduler
     \<Rightarrow> pipe_ref \<times> ('f, 'i) scheduler" where
  "newPipe target from req s =
     (let p = pipeAlloc s;
          s1 = s\<lparr>pipes := (pipes s)(p := zeroPipe\<lparr>Target := Some target, From := from,
                                                  Payload := req\<rparr>),
                 pipeAlloc := Suc p\<rparr>;
          s2 = signal (Some target) s1;
          s3 = (case from of
                  None \<Rightarrow> s2
                | Some f \<Rightarrow>
                    s2\<lparr>pipes := (pipes s2)(p := (pipes s2 p)\<lparr>OnSendCompletion := Some SignalFrom\<rparr>),
                       outgoing := (outgoing s2)(f \<mapsto> out_of s2 f @ [p])\<rparr>);
          s4 = s3\<lparr>incoming := (incoming s3)(target \<mapsto> inc_of s3 target @ [p])\<rparr>
      in (p, s4\<lparr>pipes := (pipes s4)(p := (pipes s4 p)\<lparr>OnReceiveCompletion := Some SignalTarget\<rparr>)\<rparr>))"

subsection \<open>\<open>mergeTo\<close> (lines 289-332)\<close>

text \<open>The loop over \<open>s.incoming[src]\<close> (lines 296-301).\<close>

fun merge_incoming :: "edge_ref \<Rightarrow> pipe_ref list \<Rightarrow> ('f, 'i) scheduler \<Rightarrow> ('f, 'i) scheduler" where
  "merge_incoming target [] s = s"
| "merge_incoming target (inc # rest) s =
     merge_incoming target rest
       (s\<lparr>pipes := (pipes s)(inc := (pipes s inc)\<lparr>Target := Some target\<rparr>),
          incoming := (incoming s)(target \<mapsto> inc_of s target @ [inc])\<rparr>)"

text \<open>The loop over \<open>s.outgoing[src]\<close> (lines 303-309).\<close>

fun merge_outgoing ::
  "edge_ref \<Rightarrow> pipe_ref list \<Rightarrow> ('f, 'i) scheduler \<Rightarrow> panic + ('f, 'i) scheduler" where
  "merge_outgoing target [] s = Inr s"
| "merge_outgoing target (out # rest) s =
     (case receiverCancel out
             (s\<lparr>pipes := (pipes s)(out := (pipes s out)\<lparr>From := Some target\<rparr>),
                outgoing := (outgoing s)(target \<mapsto> out_of s target @ [out])\<rparr>) of
        Inl pn \<Rightarrow> Inl pn
      | Inr s' \<Rightarrow> merge_outgoing target rest s')"

text \<open>
  \<open>src.cacheMap.Deps[i].Selector\<close>: dereferencing a nil \<open>cacheMap\<close> and indexing past the
  end both panic.
\<close>

definition selectorAt :: "CacheMap option \<Rightarrow> nat \<Rightarrow> panic + string" where
  "selectorAt cm i =
     (case cm of
        None \<Rightarrow> Inl NilDereference
      | Some m \<Rightarrow> if i < length (Deps m) then Inr (Deps m ! i)
                  else Inl (IndexOutOfRange i (length (Deps m))))"

text \<open>
  The inner loops (lines 316-318 and 323-325): one exporter per key, with the selector of
  dependency \<open>i\<close>.
\<close>

fun keys_loop :: "CacheMap option \<Rightarrow> nat \<Rightarrow> CacheKey list \<Rightarrow> expDep list \<Rightarrow> panic + expDep list" where
  "keys_loop cm i [] acc = Inr acc"
| "keys_loop cm i (k # ks) acc =
     (case selectorAt cm i of
        Inl pn \<Rightarrow> Inl pn
      | Inr sel \<Rightarrow>
          keys_loop cm i ks (acc @ [\<lparr>index = i, key = \<lparr>Selector = sel, CacheKey = k\<rparr>\<rparr>]))"

text \<open>
  The loop over \<open>src.deps\<close> (lines 315-327), from index \<open>i\<close> on; \<open>acc\<close> is
  \<open>target.secondaryExporters\<close>. The slow cache key is stored with the empty selector.
\<close>

fun deps_loop :: "CacheMap option \<Rightarrow> nat \<Rightarrow> dep list \<Rightarrow> expDep list \<Rightarrow> panic + expDep list" where
  "deps_loop cm i [] acc = Inr acc"
| "deps_loop cm i (d # ds) acc =
     (case keys_loop cm i (keys d) acc of
        Inl pn \<Rightarrow> Inl pn
      | Inr acc1 \<Rightarrow>
          (let acc2 = (case slowCacheKey d of
                         None \<Rightarrow> acc1
                       | Some k \<Rightarrow> acc1 @ [\<lparr>index = i, key = \<lparr>Selector = [], CacheKey = k\<rparr>\<rparr>])
           in case (case result d of
                      None \<Rightarrow> Inr acc2
                    | Some r \<Rightarrow> keys_loop cm i (CacheKeys r) acc2) of
                Inl pn \<Rightarrow> Inl pn
              | Inr acc3 \<Rightarrow> deps_loop cm (Suc i) ds acc3))"

definition mergeTo ::
  "edge_ref \<Rightarrow> edge_ref \<Rightarrow> ('f, 'i) scheduler \<Rightarrow> panic + (bool \<times> ('f, 'i) scheduler)" where
  "mergeTo target src s =
     (if SkipEdgeMerge (Options (Vertex (edge (edges s target))))
         \<or> SkipEdgeMerge (Options (Vertex (edge (edges s src)))) then Inr (False, s)
      else if \<not> IgnoreCache (Options (Vertex (edge (edges s target))))
         \<and> IgnoreCache (Options (Vertex (edge (edges s src)))) then Inr (False, s)
      else
        (let s1 = merge_incoming target (inc_of s src) s
         in case merge_outgoing target (out_of s1 src) s1 of
              Inl pn \<Rightarrow> Inl pn
            | Inr s2 \<Rightarrow>
                (let s3 = s2\<lparr>incoming := (incoming s2)(src := None)\<rparr>;
                     s4 = s3\<lparr>outgoing := (outgoing s3)(src := None)\<rparr>;
                     s5 = signal (Some target) s4
                 in case deps_loop (cacheMap (edges s5 src)) 0 (deps (edges s5 src))
                           (secondaryExporters (edges s5 target)) of
                      Inl pn \<Rightarrow> Inl pn
                    | Inr exps \<Rightarrow>
                        Inr (True,
                             s5\<lparr>edges := (edges s5)
                                  (target := (edges s5 target)\<lparr>secondaryExporters := exps\<rparr>)\<rparr>))))"

text \<open>
  What the specification says a merge appends to \<open>target.secondaryExporters\<close>, for
  dependency \<open>i\<close> of the source with selector \<open>sel\<close>: its accumulated keys, its slow key if
  resolved, and the keys of its result if resolved.
\<close>

definition dep_exporters :: "string \<Rightarrow> nat \<Rightarrow> dep \<Rightarrow> expDep list" where
  "dep_exporters sel i d =
     map (\<lambda>k. \<lparr>index = i, key = \<lparr>Selector = sel, CacheKey = k\<rparr>\<rparr>) (keys d)
     @ (case slowCacheKey d of
          None \<Rightarrow> []
        | Some k \<Rightarrow> [\<lparr>index = i, key = \<lparr>Selector = [], CacheKey = k\<rparr>\<rparr>])
     @ (case result d of
          None \<Rightarrow> []
        | Some r \<Rightarrow> map (\<lambda>k. \<lparr>index = i, key = \<lparr>Selector = sel, CacheKey = k\<rparr>\<rparr>) (CacheKeys r))"

definition sel_of :: "CacheMap option \<Rightarrow> nat \<Rightarrow> string" where
  "sel_of cm i = (case selectorAt cm i of Inl pn \<Rightarrow> [] | Inr sel \<Rightarrow> sel)"

fun merged_exporters :: "CacheMap option \<Rightarrow> nat \<Rightarrow> dep list \<Rightarrow> expDep list" where
  "merged_exporters cm i [] = []"
| "merged_exporters cm i (d # ds) =
     dep_exporters (sel_of cm i) i d @ merged_exporters cm (Suc i) ds"

text \<open>
  A dependency needs its selector when it carries a key or a result with keys; an edge
  is well formed for merging when its cache map has a selector for each such dependency.
\<close>

definition needsSelector :: "dep \<Rightarrow> bool" where
  "needsSelector d =
     (keys d \<noteq> [] \<or> (case result d of None \<Rightarrow> False | Some r \<Rightarrow> CacheKeys r \<noteq> []))"

fun selectors_ok :: "CacheMap option \<Rightarrow> nat \<Rightarrow> dep list \<Rightarrow> bool" where
  "selectors_ok cm i [] = True"
| "selectors_ok cm i (d # ds) =
     ((if needsSelector d then isl (selectorAt cm i) = False else True)
      \<and> selectors_ok cm (Suc i) ds)"

subsection \<open>\<open>dispatch\<close> (lines 100-190)\<close>

text \<open>
  The loop over \<open>out\<close> (lines 112-119): receive on every outgoing pipe, collect the pipes
  with new data and note whether a pipe is still open.
\<close>

fun receive_loop ::
  "edge_ref \<Rightarrow> pipe_ref list \<Rightarrow> pipe_ref list \<Rightarrow> ('f, 'i) scheduler
     \<Rightarrow> pipe_ref list \<times> ('f, 'i) scheduler" where
  "receive_loop x [] updates s = (updates, s)"
| "receive_loop x (p # out) updates s =
     (case Receive (pipes s p) of (ok, P') \<Rightarrow>
        (let s1 = s\<lparr>pipes := (pipes s)(p := P')\<rparr>;
             updates' = (if ok then updates @ [p] else updates);
             s2 = (if \<not> Completed (ReceiverStatus (pipes s1 p))
                   then s1\<lparr>edges := (edges s1)(x := (edges s1 x)\<lparr>hasActiveOutgoing := True\<rparr>)\<rparr>
                   else s1)
         in receive_loop x out updates' s2))"

text \<open>Lines 101-126: the snapshots \<open>inc\<close> and \<open>out\<close>, the receive loop and \<open>unpark\<close>.\<close>

definition dispatch_unpark :: "('f, 'i) env \<Rightarrow> edge_ref \<Rightarrow> ('f, 'i) scheduler \<Rightarrow> ('f, 'i) scheduler" where
  "dispatch_unpark E x s =
     (let inc = inc_of s x;
          out = out_of s x;
          s1 = s\<lparr>edges := (edges s)(x := (edges s x)\<lparr>hasActiveOutgoing := False\<rparr>)\<rparr>
      in case receive_loop x out [] s1 of (updates, s2) \<Rightarrow> unpark E x inc updates out s2)"

text \<open>
  Lines 129-139 and 141-151: the pipes still open (the locals \<open>openIncoming\<close> and
  \<open>openOutgoing\<close>) and the pruned maps.
\<close>

definition openIncoming :: "('f, 'i) scheduler \<Rightarrow> edge_ref \<Rightarrow> pipe_ref list" where
  "openIncoming s x = filter (\<lambda>r. \<not> Completed (SenderStatus (pipes s r))) (inc_of s x)"

definition openOutgoing :: "('f, 'i) scheduler \<Rightarrow> edge_ref \<Rightarrow> pipe_ref list" where
  "openOutgoing s x = filter (\<lambda>r. \<not> Completed (ReceiverStatus (pipes s r))) (out_of s x)"

definition prune ::
  "edge_ref \<Rightarrow> ('f, 'i) scheduler \<Rightarrow> pipe_ref list \<times> pipe_ref list \<times> ('f, 'i) scheduler" where
  "prune x s =
     (let oi = openIncoming s x;
          s1 = (if length oi > 0 then s\<lparr>incoming := (incoming s)(x \<mapsto> oi)\<rparr>
                else s\<lparr>incoming := (incoming s)(x := None)\<rparr>);
          oo = openOutgoing s1 x;
          s2 = (if length oo > 0 then s1\<lparr>outgoing := (outgoing s1)(x \<mapsto> oo)\<rparr>
                else s1\<lparr>outgoing := (outgoing s1)(x := None)\<rparr>)
      in (oi, oo, s2))"

text \<open>Lines 168-173: merge \<open>src\<close> into \<open>dest\<close> and, on success, redirect the factory.\<close>

definition mergeAndRedirect ::
  "('f, 'i) env \<Rightarrow> edge_ref \<Rightarrow> edge_ref \<Rightarrow> ('f, 'i) scheduler \<Rightarrow> panic + ('f, 'i) scheduler" where
  "mergeAndRedirect E dest src s =
     (case mergeTo dest src s of
        Inl pn \<Rightarrow> Inl pn
      | Inr (merged, s') \<Rightarrow>
          if merged then Inr (s'\<lparr>ef := setEdge E (edge (edges s' src)) dest (ef s')\<rparr>)
          else Inr s')"

text \<open>Lines 154-178: the merge decision after the keys of the edge changed.\<close>

definition mergeDecision ::
  "('f, 'i) env \<Rightarrow> edge_ref \<Rightarrow> ('f, 'i) scheduler \<Rightarrow> panic + ('f, 'i) scheduler" where
  "mergeDecision E x s =
     (if keysDidChange (edges s x) then
        (case (case currentIndexKey E (edges s x) of
                 None \<Rightarrow> Inr s
               | Some k \<Rightarrow>
                   (case LoadOrStore E k x (keyIndex s) of (origEdge, idx') \<Rightarrow>
                      (let s1 = s\<lparr>keyIndex := idx'\<rparr>
                       in case origEdge of
                            None \<Rightarrow> Inr s1
                          | Some orig \<Rightarrow>
                              if isDep E (edges s1 x) (edges s1 orig)
                                 \<or> isDep E (edges s1 orig) (edges s1 x) then Inr s1
                              else
                                (case (if hasOwner E (ef s1) (edge (edges s1 orig)) (edge (edges s1 x))
                                       then (x, orig) else (orig, x)) of
                                   (dest, src) \<Rightarrow> mergeAndRedirect E dest src s1)))) of
           Inl pn \<Rightarrow> Inl pn
         | Inr s2 \<Rightarrow> Inr (s2\<lparr>edges := (edges s2)(x := (edges s2 x)\<lparr>keysDidChange := False\<rparr>)\<rparr>))
      else Inr s)"

text \<open>
  Modelled from the spec: \<open>markFailed\<close> is a method of the edge state machine, which is not
  among the files; it marks the edge failed with the error.
\<close>

definition markFailed :: "edge_ref \<Rightarrow> string \<Rightarrow> ('f, 'i) scheduler \<Rightarrow> ('f, 'i) scheduler" where
  "markFailed x msg s = s\<lparr>edges := (edges s)(x := (edges s x)\<lparr>err := Some msg\<rparr>)\<rparr>"

definition errIncomingOpen :: string where
  "errIncomingOpen = ''buildkit scheduler error: return leaving incoming open. Please report this with BUILDKIT_SCHEDULER_DEBUG=1''"

definition errOutgoingOpen :: string where
  "errOutgoingOpen = ''buildkit scheduler error: return leaving outgoing open. Please report this with BUILDKIT_SCHEDULER_DEBUG=1''"

text \<open>Lines 184-189: the two checks on the lists computed by the pruning.\<close>

definition validate ::
  "edge_ref \<Rightarrow> pipe_ref list \<Rightarrow> pipe_ref list \<Rightarrow> ('f, 'i) scheduler \<Rightarrow> ('f, 'i) scheduler" where
  "validate x oi oo s =
     (let s1 = (if length oi > 0 \<and> length oo = 0 then markFailed x errIncomingOpen s else s)
      in if length oi = 0 \<and> length oo > 0 then markFailed x errOutgoingOpen s1 else s1)"

definition dispatch :: "('f, 'i) env \<Rightarrow> edge_ref \<Rightarrow> ('f, 'i) scheduler \<Rightarrow> panic + ('f, 'i) scheduler" where
  "dispatch E x s =
     (case prune x (dispatch_unpark E x s) of (oi, oo, s2) \<Rightarrow>
        (case mergeDecision E x s2 of
           Inl pn \<Rightarrow> Inl pn
         | Inr s3 \<Rightarrow> Inr (validate x oi oo s3)))"

subsection \<open>\<open>build\<close> (lines 210-243)\<close>

datatype build_error = InvalidRequest Edge | PipeError string

text \<open>
  What a call of \<open>build\<close> comes to: it returns a result or an error, panics, or is still
  blocked on \<open>wait\<close>.
\<close>

datatype build_outcome =
  Returned "build_error + CachedResult" | Panicked panic | Blocked

text \<open>
  Lines 211-227, run under \<open>mu\<close>: resolve the edge, make the channel \<open>wait\<close> (a new channel
  is open: the address the new pipe gets is not among the closed ones), create the root
  pipe and install the waiter callback.
\<close>

definition build_begin ::
  "('f, 'i) env \<Rightarrow> Edge \<Rightarrow> ('f, 'i) scheduler \<Rightarrow> build_error + (pipe_ref \<times> ('f, 'i) scheduler)" where
  "build_begin E ed s =
     (case getEdge E (ef s) ed of
        None \<Rightarrow> Inl (InvalidRequest ed)
      | Some x \<Rightarrow>
          (let s0 = s\<lparr>waitClosed := waitClosed s - {pipeAlloc s}\<rparr>
           in case newPipe x None \<lparr>desiredState = edgeStatusComplete\<rparr> s0 of (p, s1) \<Rightarrow>
                Inr (p, s1\<lparr>pipes := (pipes s1)(p := (pipes s1 p)\<lparr>OnSendCompletion := Some NotifyWaiter\<rparr>)\<rparr>)))"

text \<open>
  Lines 237-242, in the state \<open>s\<close> the scheduler is in when the caller next runs: the
  receive on \<open>wait\<close> returns only once the channel is closed, then the status of the pipe
  is read. The type assertion on a value that is no \<open>*edgeState\<close> and the call on a nil
  result panic.
\<close>

definition build_end :: "('f, 'i) env \<Rightarrow> pipe_ref \<Rightarrow> ('f, 'i) scheduler \<Rightarrow> build_outcome" where
  "build_end E p s =
     (if p \<notin> waitClosed s then Blocked
      else
        (case Err (ReceiverStatus (pipes s p)) of
           Some msg \<Rightarrow> Returned (Inl (PipeError msg))
         | None \<Rightarrow>
             (case Value (ReceiverStatus (pipes s p)) of
                EdgeStateValue (Some r) \<Rightarrow> Returned (Inr (CloneCachedResult E r))
              | EdgeStateValue None \<Rightarrow> Panicked NilDereference
              | _ \<Rightarrow> Panicked TypeAssertionFailed)))"

text \<open>
  What happens between the two parts of \<open>build\<close>, while the caller waits on \<open>wait\<close>. The
  dispatcher loop and the workers run (\<open>World f\<close>); the pipe invokes its callback
  \<open>OnSendCompletion\<close> (\<open>SendCompletion\<close>); the context is done and the watcher cancels the
  pipe (\<open>CtxDone\<close>, lines 232-235).
\<close>

datatype ('f, 'i) event =
  World "('f, 'i) scheduler \<Rightarrow> ('f, 'i) scheduler" | SendCompletion | CtxDone

text \<open>
  A step of the rest of the program, for the root pipe \<open>p\<close> of a \<open>build\<close>. It may change the
  scheduler state in any way, except for what only \<open>build\<close> holds: the channel \<open>wait\<close>, a
  local of \<open>build\<close> that its closure alone closes, and the receiving end of \<open>p\<close>, which
  \<open>newPipe\<close> hands to \<open>build\<close> alone (\<open>p\<close> has no source edge, so it is in no outgoing list,
  and of an incoming pipe \<open>dispatch\<close> uses the sender only, lines 103 and 131), and the
  callback \<open>OnSendCompletion\<close> of \<open>p\<close>, which is assigned to pipes just created only (lines
  221, 255 and 278). Modelled from the spec: the status of a pipe moves forward only, so
  a status the sender has completed stays.
\<close>

definition world_step ::
  "pipe_ref \<Rightarrow> (('f, 'i) scheduler \<Rightarrow> ('f, 'i) scheduler) \<Rightarrow> ('f, 'i) scheduler
     \<Rightarrow> ('f, 'i) scheduler" where
  "world_step p f s =
     (let s' = f s
      in s'\<lparr>waitClosed := (if p \<in> waitClosed s then insert p (waitClosed s')
                            else waitClosed s' - {p}),
            pipes := (pipes s')(p := (pipes s' p)
              \<lparr>ReceiverStatus := ReceiverStatus (pipes s p),
               OnSendCompletion := OnSendCompletion (pipes s p),
               SenderStatus := (if Completed (SenderStatus (pipes s p))
                                then SenderStatus (pipes s p)
                                else SenderStatus (pipes s' p))\<rparr>)\<rparr>)"

fun run_event ::
  "pipe_ref \<Rightarrow> ('f, 'i) event \<Rightarrow> ('f, 'i) scheduler \<Rightarrow> panic + ('f, 'i) scheduler" where
  "run_event p (World f) s = Inr (world_step p f s)"
| "run_event p SendCompletion s = fire_opt (OnSendCompletion (pipes s p)) p s"
| "run_event p CtxDone s = receiverCancel p s"

fun run_events ::
  "pipe_ref \<Rightarrow> ('f, 'i) event list \<Rightarrow> ('f, 'i) scheduler \<Rightarrow> panic + ('f, 'i) scheduler" where
  "run_events p [] s = Inr s"
| "run_events p (ev # evs) s =
     (case run_event p ev s of
        Inl pn \<Rightarrow> Inl pn
      | Inr s' \<Rightarrow> run_events p evs s')"

text \<open>
  \<open>build\<close>, for the events \<open>evs\<close> that have taken place when the caller next runs. A panic
  of the callback ends the program; the state given with it is the one before the events.
\<close>

definition build ::
  "('f, 'i) env \<Rightarrow> ('f, 'i) event list \<Rightarrow> Edge \<Rightarrow> ('f, 'i) scheduler
     \<Rightarrow> build_outcome \<times> ('f, 'i) scheduler" where
  "build E evs ed s =
     (case build_begin E ed s of
        Inl er \<Rightarrow> (Returned (Inl er), s)
      | Inr (p, s1) \<Rightarrow>
          (case run_events p evs s1 of
             Inl pn \<Rightarrow> (Panicked pn, s1)
           | Inr t \<Rightarrow> (build_end E p t, t)))"

text \<open>
  What holds of the root pipe \<open>p\<close> of a \<open>build\<close> while it waits: its callback is the
  closure of \<open>build\<close>, and if \<open>wait\<close> is closed, the receiver has seen the pipe completed,
  with the status the sender gave it.
\<close>

definition wait_inv :: "pipe_ref \<Rightarrow> ('f, 'i) scheduler \<Rightarrow> bool" where
  "wait_inv p s =
     (OnSendCompletion (pipes s p) = Some NotifyWaiter
      \<and> (if p \<in> waitClosed s
          then Completed (ReceiverStatus (pipes s p))
               \<and> SenderStatus (pipes s p) = ReceiverStatus (pipes s p)
          else True))"

subsection \<open>What cancellation and callbacks leave in place\<close>

definition pipe_kept :: "edgePipe \<Rightarrow> edgePipe \<Rightarrow> bool" where
  "pipe_kept P P' =
     (Target P' = Target P \<and> From P' = From P \<and> Payload P' = Payload P
      \<and> SenderStatus P' = SenderStatus P
      \<and> OnSendCompletion P' = OnSendCompletion P
      \<and> OnReceiveCompletion P' = OnReceiveCompletion P
      \<and> (if Canceled P then Canceled P' else True))"

definition sched_kept :: "('f, 'i) scheduler \<Rightarrow> ('f, 'i) scheduler \<Rightarrow> bool" where
  "sched_kept s s' =
     (incoming s' = incoming s \<and> outgoing s' = outgoing s \<and> edges s' = edges s
      \<and> ef s' = ef s \<and> keyIndex s' = keyIndex s \<and> pipeAlloc s' = pipeAlloc s
      \<and> waitq s \<subseteq> waitq s' \<and> waitClosed s' = waitClosed s)"

text \<open>The two conditions under which \<open>mergeTo\<close> is specified to skip.\<close>

definition skipsMerge :: "('f, 'i) scheduler \<Rightarrow> edge_ref \<Rightarrow> edge_ref \<Rightarrow> bool" where
  "skipsMerge s target src =
     (SkipEdgeMerge (Options (Vertex (edge (edges s target))))
      \<or> SkipEdgeMerge (Options (Vertex (edge (edges s src))))
      \<or> (\<not> IgnoreCache (Options (Vertex (edge (edges s target))))
          \<and> IgnoreCache (Options (Vertex (edge (edges s src))))))"

section \<open>A small build graph for concrete runs\<close>

text \<open>
  Three edges: edge 1 and edge 2 both depend on edge 3 and have arrived at the same index
  key \<open>k\<close>, which edge 2 claimed first. Pipes 0 and 2 are root pipes towards edges 1 and 2,
  pipes 1 and 3 their requests to edge 3. The factory is a map from \<open>Edge\<close> values to
  edges and says that the edge of 2 is owned by the edge of 1; the key index is a map with
  load-or-store; \<open>unpark\<close> does nothing.
\<close>

definition vtx :: "string \<Rightarrow> vertex" where
  "vtx d = \<lparr>Digest = d, Options = \<lparr>IgnoreCache = False, SkipEdgeMerge = False\<rparr>\<rparr>"

definition E1 :: Edge where "E1 = \<lparr>Index = 0, Vertex = vtx ''sha256:a''\<rparr>"
definition E2 :: Edge where "E2 = \<lparr>Index = 0, Vertex = vtx ''sha256:b''\<rparr>"
definition E3 :: Edge where "E3 = \<lparr>Index = 0, Vertex = vtx ''sha256:c''\<rparr>"

definition dep0 :: dep where
  "dep0 = \<lparr>keys = [''k3''], slowCacheKey = Some ''slow3'',
           result = Some \<lparr>ID = 7, CacheKeys = [''r3'']\<rparr>\<rparr>"

definition mkEdge :: "Edge \<Rightarrow> dep list \<Rightarrow> bool \<Rightarrow> edge" where
  "mkEdge ed ds changed =
     \<lparr>edge = ed, deps = ds, cacheMap = Some \<lparr>Deps = map (\<lambda>_. ''sel'') ds\<rparr>,
      secondaryExporters = [], hasActiveOutgoing = False, keysDidChange = changed,
      err = None\<rparr>"

definition mkPipe :: "edge_ref option \<Rightarrow> edge_ref option \<Rightarrow> edgePipe" where
  "mkPipe t f =
     zeroPipe\<lparr>Target := t, From := f, Payload := \<lparr>desiredState = edgeStatusComplete\<rparr>,
       OnSendCompletion := (if f = None then Some NotifyWaiter else Some SignalFrom),
       OnReceiveCompletion := Some SignalTarget\<rparr>"

definition sC :: "(Edge \<rightharpoonup> edge_ref, string \<rightharpoonup> edge_ref) scheduler" where
  "sC =
     \<lparr>waitq = {}, q_next = None, q_last = None,
      dispatchers = (\<lambda>_. \<lparr>d_next = None, d_e = None\<rparr>), dispAlloc = 0,
      condSignalled = False,
      incoming = [1 \<mapsto> [0], 2 \<mapsto> [2], 3 \<mapsto> [1, 3]],
      outgoing = [1 \<mapsto> [1], 2 \<mapsto> [3]],
      pipes = (\<lambda>_. zeroPipe)(0 := mkPipe (Some 1) None, 1 := mkPipe (Some 3) (Some 1),
                2 := mkPipe (Some 2) None, 3 := mkPipe (Some 3) (Some 2)),
      pipeAlloc = 4,
      edges = (\<lambda>_. mkEdge E3 [] False)(1 := mkEdge E1 [dep0] True, 2 := mkEdge E2 [dep0] False),
      ef = [E1 \<mapsto> 1, E2 \<mapsto> 2, E3 \<mapsto> 3],
      keyIndex = [''k'' \<mapsto> 2],
      waitClosed = {}\<rparr>"

definition EC :: "(Edge \<rightharpoonup> edge_ref, string \<rightharpoonup> edge_ref) env" where
  "EC =
     \<lparr>getEdge = (\<lambda>f ed. f ed),
      setEdge = (\<lambda>old new f. f(old \<mapsto> new)),
      hasOwner = (\<lambda>f a b. a = E2 \<and> b = E1),
      LoadOrStore = (\<lambda>k x idx. case idx k of None \<Rightarrow> (None, idx(k \<mapsto> x)) | Some y \<Rightarrow> (Some y, idx)),
      currentIndexKey = (\<lambda>ed. if deps ed = [] then None else Some ''k''),
      isDep = (\<lambda>a b. Digest (Vertex (edge b)) = ''sha256:c''),
      unpark = (\<lambda>x inc updates out s. s),
      CloneCachedResult = (\<lambda>r. r\<lparr>ID := ID r + 100\<rparr>)\<rparr>"

text \<open>
  A scheduler with edge 1 queued, and the graph above with the cache ignored by edge 2
  only.
\<close>

definition sQ :: "(unit, unit) scheduler" where
  "sQ = signal (Some 1) (newScheduler () () (\<lambda>_. mkEdge E3 [] False))"

definition sSkip :: "(Edge \<rightharpoonup> edge_ref, string \<rightharpoonup> edge_ref) scheduler" where
  "sSkip = sC\<lparr>edges := (edges sC)(2 := (edges sC 2)\<lparr>edge :=
      \<lparr>Index = 0, Vertex = \<lparr>Digest = ''sha256:b'',
          Options = \<lparr>IgnoreCache = True, SkipEdgeMerge = False\<rparr>\<rparr>\<rparr>\<rparr>)\<rparr>"

text \<open>
  Variants of the graph: the key \<open>k\<close> claimed by edge 3, on which edge 1 depends; a factory
  that knows no owners; a sender completing a pipe with a result or with an error; the
  graph with pipe 1 completed, with pipes 1 and 3 completed, and with root pipe 2
  completed; and an \<open>Edge\<close> the factory does not know.
\<close>

definition sAnc :: "(Edge \<rightharpoonup> edge_ref, string \<rightharpoonup> edge_ref) scheduler" where
  "sAnc = sC\<lparr>keyIndex := [''k'' \<mapsto> 3]\<rparr>"

definition ENoOwner :: "(Edge \<rightharpoonup> edge_ref, string \<rightharpoonup> edge_ref) env" where
  "ENoOwner = EC\<lparr>hasOwner := (\<lambda>f a b. False)\<rparr>"

definition res9 :: CachedResult where
  "res9 = \<lparr>ID = 9, CacheKeys = [''k'']\<rparr>"

definition doneStatus :: Status where
  "doneStatus = \<lparr>Completed = True, Err = None, Value = EdgeStateValue (Some res9)\<rparr>"

definition failedStatus :: Status where
  "failedStatus = \<lparr>Completed = True, Err = Some ''exit code: 1'', Value = NilValue\<rparr>"

definition senderCompletes ::
  "pipe_ref \<Rightarrow> Status \<Rightarrow> ('f, 'i) scheduler \<Rightarrow> ('f, 'i) scheduler" where
  "senderCompletes p st s = s\<lparr>pipes := (pipes s)(p := (pipes s p)\<lparr>SenderStatus := st\<rparr>)\<rparr>"

definition sMixed :: "(Edge \<rightharpoonup> edge_ref, string \<rightharpoonup> edge_ref) scheduler" where
  "sMixed = senderCompletes 1 doneStatus sC"

definition sAllDone :: "(Edge \<rightharpoonup> edge_ref, string \<rightharpoonup> edge_ref) scheduler" where
  "sAllDone = senderCompletes 3 doneStatus (senderCompletes 1 doneStatus sC)"

definition sRootDone :: "(Edge \<rightharpoonup> edge_ref, string \<rightharpoonup> edge_ref) scheduler" where
  "sRootDone = senderCompletes 2 doneStatus sC"

definition E9 :: Edge where "E9 = \<lparr>Index = 0, Vertex = vtx ''sha256:z''\<rparr>"

section \<open>Properties of execution errors\<close>

lemma set_distinct_handles: "set (distinct_handles rs) = {h. Some h \<in> set rs}"
  by (induction rs rule: distinct_handles.induct) auto

lemma distinct_distinct_handles: "distinct (distinct_handles rs)"
  by (induction rs rule: distinct_handles.induct) (auto simp: distinct_removeAll)

lemma removeAll_filter_conj: "removeAll h (filter P xs) = filter (\<lambda>k. k \<noteq> h \<and> P k) xs"
  by (induction xs) auto

lemma filter_removeAll_conj: "filter P (removeAll h xs) = filter (\<lambda>k. k \<noteq> h \<and> P k) xs"
  by (induction xs) auto

lemma distinct_handles_append:
  "distinct_handles (xs @ ys) =
     distinct_handles xs @ filter (\<lambda>h. h \<notin> set (distinct_handles xs)) (distinct_handles ys)"
proof (induction xs rule: distinct_handles.induct)
  case (3 h rs)
  have "filter (\<lambda>k. k \<noteq> h \<and> k \<notin> set (distinct_handles rs)) (distinct_handles ys)
      = filter (\<lambda>k. k \<noteq> h \<and> (k \<in> set (distinct_handles rs) \<longrightarrow> k = h)) (distinct_handles ys)"
    by (rule filter_cong) auto
  with 3 show ?case by (simp add: removeAll_filter_conj)
qed simp_all

lemma eachRef_loop_release:
  "eachRef_loop releaseRef xs m er w =
     (m \<union> set (distinct_handles xs), er,
      w @ filter (\<lambda>h. h \<notin> m) (distinct_handles xs))"
proof (induction xs arbitrary: m w)
  case Nil
  show ?case by simp
next
  case (Cons res rest)
  show ?case
  proof (cases res)
    case None
    then show ?thesis by (simp add: Cons.IH)
  next
    case (Some h)
    show ?thesis
    proof (cases "h \<in> m")
      case True
      have "filter (\<lambda>k. k \<noteq> h \<and> k \<notin> m) (distinct_handles rest)
          = filter (\<lambda>k. k \<notin> m) (distinct_handles rest)"
        using True by (intro filter_cong) auto
      moreover have "insert h (m \<union> set (distinct_handles rest)) = m \<union> set (distinct_handles rest)"
        using True by auto
      ultimately show ?thesis using Some True
        by (simp add: Cons.IH filter_removeAll_conj insert_absorb)
    next
      case False
      have flt: "filter (\<lambda>k. k \<noteq> h \<and> k \<notin> m) (distinct_handles rest)
          = filter (\<lambda>k. k \<notin> insert h m) (distinct_handles rest)"
        by (intro filter_cong) auto
      have step: "eachRef_loop releaseRef (res # rest) m er w
          = eachRef_loop releaseRef rest (insert h m) er (w @ [h])"
        using Some False by (simp add: releaseRef_def)
      show ?thesis unfolding step using Some False flt
        by (simp add: Cons.IH filter_removeAll_conj)
    qed
  qed
qed

lemma Release_fresh:
  assumes "\<not> OwnerBorrowed e"
  shows "Release e w =
    (None, e\<lparr>OwnerBorrowed := True\<rparr>, w @ distinct_handles (Inputs e @ Mounts e))"
  using assms
  by (simp add: Release_def EachRef_def eachRef_loop_release distinct_handles_append)

lemma Release_borrowed: "OwnerBorrowed e \<Longrightarrow> Release e w = (None, e, w)"
  by (simp add: Release_def)

lemma Release_times_borrowed: "OwnerBorrowed e \<Longrightarrow> Release_times n e w = (e, w)"
  by (induction n) (simp_all add: Release_borrowed)

text \<open>
  Claim C9. A call of \<open>Release\<close> on an error whose \<open>OwnerBorrowed\<close> flag is clear releases
  each distinct non-nil handle of \<open>Inputs\<close> and \<open>Mounts\<close> exactly once (the log grows by a
  duplicate-free list holding exactly those handles), returns nil and sets the flag; a call
  on an error whose flag is set returns nil and changes nothing. Hence any number of further
  calls leaves the state of the first call: no handle is released twice.
\<close>

theorem Release_releases_each_handle_once:
  "Release e w =
     (if OwnerBorrowed e then (None, e, w)
      else (None, e\<lparr>OwnerBorrowed := True\<rparr>, w @ distinct_handles (Inputs e @ Mounts e)))
   \<and> distinct (distinct_handles (Inputs e @ Mounts e))
   \<and> set (distinct_handles (Inputs e @ Mounts e)) = {h. Some h \<in> set (Inputs e) \<union> set (Mounts e)}
   \<and> Release_times (Suc n) e w = (case Release e w of (er, e', w') \<Rightarrow> (e', w'))"
proof (cases "OwnerBorrowed e")
  case True
  then show ?thesis
    by (simp add: Release_borrowed Release_times_borrowed distinct_distinct_handles
        set_distinct_handles)
next
  case False
  then show ?thesis
    by (simp add: Release_fresh Release_times_borrowed distinct_distinct_handles
        set_distinct_handles)
qed

theorem Release_releases_each_handle_once_witness:
  "Release ee0 [] = (None, ee0\<lparr>OwnerBorrowed := True\<rparr>, [1, 2, 3])
   \<and> Release_times 3 ee0 [] = (ee0\<lparr>OwnerBorrowed := True\<rparr>, [1, 2, 3])
   \<and> Release (ee0\<lparr>OwnerBorrowed := True\<rparr>) [1, 2, 3] = (None, ee0\<lparr>OwnerBorrowed := True\<rparr>, [1, 2, 3])"
proof -
  have a: "Release ee0 [] = (None, ee0\<lparr>OwnerBorrowed := True\<rparr>, [1, 2, 3])"
    using Release_releases_each_handle_once [of ee0 "[]" 2] by (simp add: ee0_def)
  have b: "Release_times 3 ee0 [] = (ee0\<lparr>OwnerBorrowed := True\<rparr>, [1, 2, 3])"
    using Release_releases_each_handle_once [of ee0 "[]" 2] a
    by (simp add: numeral_3_eq_3 del: Release_times.simps)
  have c: "Release (ee0\<lparr>OwnerBorrowed := True\<rparr>) [1, 2, 3] = (None, ee0\<lparr>OwnerBorrowed := True\<rparr>, [1, 2, 3])"
    using Release_releases_each_handle_once [of "ee0\<lparr>OwnerBorrowed := True\<rparr>" "[1, 2, 3]" 0]
    by simp
  from a b c show ?thesis by blast
qed

text \<open>
  Claim C10. With a nil underlying error, \<open>WithExecError\<close> and \<open>WithExecErrorWithContext\<close>
  return nil for all input and mount lists: no \<open>ExecError\<close> is built, so no handle of the
  lists is kept by one.
\<close>

theorem WithExecError_nil:
  "WithExecError None inputs mounts = None \<and> WithExecErrorWithContext None inputs mounts = None"
  by (simp add: WithExecError_def WithExecErrorWithContext_def)

section \<open>The wait queue\<close>

lemma signal_pending: "x \<in> waitq s \<Longrightarrow> signal x s = s"
  by (simp add: signal_def Let_def)

lemma waitq_signal: "waitq (signal x s) = insert x (waitq s)"
  by (auto simp: signal_def Let_def split: option.splits)

lemma fifo_seg_frame:
  "fifo_seg h p ds \<Longrightarrow> \<forall>d\<in>set ds. d_next (h' d) = d_next (h d) \<Longrightarrow> fifo_seg h' p ds"
  by (induction ds arbitrary: p) auto

lemma fifo_seg_append:
  "fifo_seg h p ds \<Longrightarrow> ds \<noteq> [] \<Longrightarrow> distinct ds \<Longrightarrow> d \<notin> set ds \<Longrightarrow>
   d_next (h' d) = None \<Longrightarrow> d_next (h' (last ds)) = Some d \<Longrightarrow>
   \<forall>a\<in>set (butlast ds). d_next (h' a) = d_next (h a) \<Longrightarrow>
   fifo_seg h' p (ds @ [d])"
proof (induction ds arbitrary: p)
  case Nil
  then show ?case by simp
next
  case (Cons a ds)
  show ?case
  proof (cases "ds = []")
    case True
    with Cons.prems show ?thesis by simp
  next
    case False
    with Cons.prems have "fifo_seg h' (d_next (h a)) (ds @ [d])"
      by (intro Cons.IH) auto
    with Cons.prems False show ?thesis by simp
  qed
qed

lemma queue_inv_signal_new:
  assumes inv: "queue_inv s ds" and new: "x \<notin> waitq s"
  shows "queue_inv (signal x s) (ds @ [dispAlloc s])"
    and "fifo_edges (signal x s) (ds @ [dispAlloc s]) = fifo_edges s ds @ [x]"
proof -
  let ?d = "dispAlloc s"
  from inv have seg: "fifo_seg (dispatchers s) (q_next s) ds" and dist: "distinct ds"
    and alloc: "list_all (\<lambda>d. d < ?d) ds"
    and lst: "q_last s = (if ds = [] then None else Some (last ds))"
    and de: "distinct (fifo_edges s ds)" and wq: "waitq s = set (fifo_edges s ds)"
    by (simp_all add: queue_inv_def)
  from alloc have fresh: "?d \<notin> set ds" by (auto simp: list_all_iff)
  have edges: "fifo_edges (signal x s) (ds @ [?d]) = fifo_edges s ds @ [x]"
  proof (cases "ds = []")
    case True
    with new lst show ?thesis by (simp add: fifo_edges_def signal_def Let_def)
  next
    case False
    then have "last ds \<in> set ds" by simp
    with fresh have "last ds \<noteq> ?d" by auto
    with new lst False fresh show ?thesis
      by (auto simp: fifo_edges_def signal_def Let_def)
  qed
  show "fifo_edges (signal x s) (ds @ [?d]) = fifo_edges s ds @ [x]" by (rule edges)
  have seg': "fifo_seg (dispatchers (signal x s)) (q_next (signal x s)) (ds @ [?d])"
  proof (cases "ds = []")
    case True
    with new lst seg show ?thesis by (simp add: signal_def Let_def)
  next
    case False
    then have "last ds \<in> set ds" by simp
    with fresh have ne: "last ds \<noteq> ?d" by auto
    have qn: "q_next (signal x s) = q_next s"
      using new lst False by (simp add: signal_def Let_def)
    have "fifo_seg (dispatchers (signal x s)) (q_next s) (ds @ [?d])"
    proof (rule fifo_seg_append [OF seg False dist fresh])
      show "d_next (dispatchers (signal x s) ?d) = None"
        using new lst False ne by (simp add: signal_def Let_def)
      show "d_next (dispatchers (signal x s) (last ds)) = Some ?d"
        using new lst False ne by (simp add: signal_def Let_def)
      show "\<forall>a\<in>set (butlast ds). d_next (dispatchers (signal x s) a) = d_next (dispatchers s a)"
      proof
        fix a assume a: "a \<in> set (butlast ds)"
        then have "a \<in> set ds" by (rule in_set_butlastD)
        with fresh have "a \<noteq> ?d" by auto
        moreover from a dist False have "a \<noteq> last ds"
          by (metis append_butlast_last_id distinct_butlast not_distinct_conv_prefix)
        ultimately show "d_next (dispatchers (signal x s) a) = d_next (dispatchers s a)"
          using new lst False by (simp add: signal_def Let_def)
      qed
    qed
    with qn show ?thesis by simp
  qed
  have "dispAlloc (signal x s) = Suc ?d" using new by (simp add: signal_def Let_def split: option.splits)
  with alloc have alloc': "list_all (\<lambda>d. d < dispAlloc (signal x s)) (ds @ [?d])"
    by (auto simp: list_all_iff)
  have lst': "q_last (signal x s) = Some ?d"
    using new by (simp add: signal_def Let_def split: option.splits)
  from new wq have "x \<notin> set (fifo_edges s ds)" by simp
  with de edges have de': "distinct (fifo_edges (signal x s) (ds @ [?d]))" by simp
  have wq': "waitq (signal x s) = set (fifo_edges (signal x s) (ds @ [?d]))"
    using wq edges by (simp add: waitq_signal)
  from seg' dist fresh alloc' lst' de' wq'
  show "queue_inv (signal x s) (ds @ [?d])" by (simp add: queue_inv_def)
qed

lemma queue_inv_dequeue_empty: "queue_inv s [] \<Longrightarrow> dequeue s = (None, s)"
  by (simp add: queue_inv_def dequeue_def)

lemma queue_inv_dequeue_cons:
  assumes inv: "queue_inv s (d # ds)"
  shows "fst (dequeue s) = Some d"
    and "queue_inv (snd (dequeue s)) ds"
    and "fifo_edges (snd (dequeue s)) ds = fifo_edges s ds"
    and "waitq (snd (dequeue s)) = waitq s - {d_e (dispatchers s d)}"
    and "dispatchers (snd (dequeue s)) = dispatchers s"
proof -
  from inv have qn: "q_next s = Some d" and seg: "fifo_seg (dispatchers s) (d_next (dispatchers s d)) ds"
    and dist: "distinct (d # ds)" and alloc: "list_all (\<lambda>a. a < dispAlloc s) (d # ds)"
    and lst: "q_last s = Some (last (d # ds))"
    and de: "distinct (fifo_edges s (d # ds))" and wq: "waitq s = set (fifo_edges s (d # ds))"
    by (simp_all add: queue_inv_def)
  show fst: "fst (dequeue s) = Some d" using qn by (simp add: dequeue_def Let_def)
  show hp: "dispatchers (snd (dequeue s)) = dispatchers s"
    using qn by (simp add: dequeue_def Let_def)
  then show fe: "fifo_edges (snd (dequeue s)) ds = fifo_edges s ds"
    by (simp add: fifo_edges_def)
  show w: "waitq (snd (dequeue s)) = waitq s - {d_e (dispatchers s d)}"
    using qn by (simp add: dequeue_def Let_def)
  have qn': "q_next (snd (dequeue s)) = d_next (dispatchers s d)"
    using qn by (simp add: dequeue_def Let_def)
  have al': "dispAlloc (snd (dequeue s)) = dispAlloc s"
    using qn by (simp add: dequeue_def Let_def)
  have lst': "q_last (snd (dequeue s)) = (if ds = [] then None else Some (last ds))"
  proof (cases "ds = []")
    case True
    with qn lst show ?thesis by (simp add: dequeue_def Let_def)
  next
    case False
    then have "last ds \<in> set ds" by simp
    with dist have "d \<noteq> last ds" by auto
    with qn lst False show ?thesis by (simp add: dequeue_def Let_def)
  qed
  from de have "d_e (dispatchers s d) \<notin> set (fifo_edges s ds)" and de': "distinct (fifo_edges s ds)"
    by (simp_all add: fifo_edges_def)
  with wq w have wq': "waitq (snd (dequeue s)) = set (fifo_edges s ds)"
    by (auto simp: fifo_edges_def)
  from seg dist alloc qn' hp al' lst' de' wq' fe
  show "queue_inv (snd (dequeue s)) ds" by (simp add: queue_inv_def)
qed

lemma distinct_count_list: "distinct xs \<Longrightarrow> count_list xs x = (if x \<in> set xs then 1 else 0)"
  by (induction xs) auto

lemma signal_funpow: "0 < n \<Longrightarrow> (signal x ^^ n) s = signal x s"
proof (induction n)
  case 0
  then show ?case by simp
next
  case (Suc n)
  show ?case
  proof (cases "n = 0")
    case True
    then show ?thesis by simp
  next
    case False
    with Suc.IH have "(signal x ^^ n) s = signal x s" by simp
    moreover have "x \<in> waitq (signal x s)" by (simp add: waitq_signal)
    ultimately show ?thesis by (simp add: signal_pending)
  qed
qed

lemma queue_inv_signal:
  "queue_inv s ds \<Longrightarrow> queue_inv (signal x s) (if x \<in> waitq s then ds else ds @ [dispAlloc s])"
  by (simp add: signal_pending queue_inv_signal_new)

lemma queue_inv_dequeue:
  assumes "queue_inv s ds"
  shows "fst (dequeue s) = (case ds of [] \<Rightarrow> None | d # _ \<Rightarrow> Some d)"
    and "queue_inv (snd (dequeue s)) (tl ds)"
proof -
  show "fst (dequeue s) = (case ds of [] \<Rightarrow> None | d # _ \<Rightarrow> Some d)"
    using assms by (cases ds) (simp_all add: queue_inv_dequeue_empty queue_inv_dequeue_cons)
  show "queue_inv (snd (dequeue s)) (tl ds)"
    using assms by (cases ds) (simp_all add: queue_inv_dequeue_empty queue_inv_dequeue_cons)
qed

lemma queue_inv_new: "queue_inv (newScheduler f i es) []"
  by (simp add: queue_inv_def newScheduler_def fifo_edges_def)

lemma drain_fifo: "queue_inv s ds \<Longrightarrow> length ds \<le> n \<Longrightarrow> drain n s = fifo_edges s ds"
proof (induction ds arbitrary: s n)
  case Nil
  then show ?case
    by (cases n) (simp_all add: queue_inv_dequeue_empty fifo_edges_def)
next
  case (Cons d ds)
  then obtain m where n: "n = Suc m" and le: "length ds \<le> m" by (cases n) auto
  obtain l s' where dq: "dequeue s = (l, s')" by (cases "dequeue s")
  with queue_inv_dequeue_cons [OF Cons.prems(1)]
  have l: "l = Some d" and inv: "queue_inv s' ds" and fe: "fifo_edges s' ds = fifo_edges s ds"
    and hp: "dispatchers s' = dispatchers s" by simp_all
  from Cons.IH [OF inv le] have "drain m s' = fifo_edges s' ds" .
  with n dq l fe hp show ?case by (simp add: fifo_edges_def)
qed

text \<open>
  Claim C8. The scheduler keeps the invariant that \<open>waitq\<close> is exactly the set of the edges
  linked in the FIFO from \<open>next\<close> to \<open>last\<close>: it holds for a new scheduler, and \<open>signal\<close> and
  the dequeue step of the loop preserve it (a signal of an edge not waiting appends one
  node, the dequeue removes the head). Under it, membership in \<open>waitq\<close> is membership in the
  FIFO, and an edge that waits is linked exactly once.
\<close>

theorem waitq_is_fifo_membership:
  "queue_inv (newScheduler f i es) [] \<and>
   (queue_inv s ds \<longrightarrow>
      queue_inv (signal x s) (if x \<in> waitq s then ds else ds @ [dispAlloc s])
      \<and> fst (dequeue s) = (case ds of [] \<Rightarrow> None | d # _ \<Rightarrow> Some d)
      \<and> queue_inv (snd (dequeue s)) (tl ds)
      \<and> (x \<in> waitq s \<longleftrightarrow> x \<in> set (fifo_edges s ds))
      \<and> count_list (fifo_edges s ds) x = (if x \<in> waitq s then 1 else 0))"
proof (intro conjI impI)
  show "queue_inv (newScheduler f i es) []" by (rule queue_inv_new)
next
  assume inv: "queue_inv s ds"
  show "queue_inv (signal x s) (if x \<in> waitq s then ds else ds @ [dispAlloc s])"
    using inv by (rule queue_inv_signal)
  show "fst (dequeue s) = (case ds of [] \<Rightarrow> None | d # _ \<Rightarrow> Some d)"
    using inv by (rule queue_inv_dequeue)
  show "queue_inv (snd (dequeue s)) (tl ds)"
    using inv by (rule queue_inv_dequeue)
  from inv have wq: "waitq s = set (fifo_edges s ds)" and de: "distinct (fifo_edges s ds)"
    by (simp_all add: queue_inv_def)
  from wq show "x \<in> waitq s \<longleftrightarrow> x \<in> set (fifo_edges s ds)" by simp
  from wq de show "count_list (fifo_edges s ds) x = (if x \<in> waitq s then 1 else 0)"
    by (simp add: distinct_count_list)
qed

lemma run_ops_without_signal:
  "x \<in> waitq s \<Longrightarrow> stays_pending x ops s \<Longrightarrow>
   run_ops ops s = run_ops (filter (\<lambda>a. a \<noteq> Sig x) ops) s"
proof (induction ops arbitrary: s)
  case Nil
  show ?case by simp
next
  case (Cons a ops)
  show ?case
  proof (cases "a = Sig x")
    case True
    with Cons.prems have "run_op a s = s" by (simp add: signal_pending)
    with Cons True show ?thesis by simp
  next
    case False
    with Cons show ?thesis by simp
  qed
qed

text \<open>
  Claim C6. \<open>signal\<close> is idempotent while the edge is pending: any positive number of calls
  of \<open>signal\<close> for an edge leaves the state of a single call, and so does a run of signals
  and dequeue steps in which the edge is not dequeued: the further signals for the edge
  can be left out of it. The edge is linked exactly once in the FIFO, and the following
  iterations of the loop hand it to \<open>dispatch\<close> exactly once.
\<close>

theorem signal_idempotent_while_pending:
  assumes "queue_inv s ds" and "0 < n" and "stays_pending x ops (signal x s)"
  shows "(signal x ^^ n) s = signal x s
    \<and> x \<in> waitq (signal x s)
    \<and> signal x (signal x s) = signal x s
    \<and> run_ops ops (signal x s) = run_ops (filter (\<lambda>a. a \<noteq> Sig x) ops) (signal x s)
    \<and> queue_inv ((signal x ^^ n) s) (if x \<in> waitq s then ds else ds @ [dispAlloc s])
    \<and> count_list (fifo_edges ((signal x ^^ n) s) (if x \<in> waitq s then ds else ds @ [dispAlloc s])) x = 1
    \<and> count_list (drain (Suc (length ds)) ((signal x ^^ n) s)) x = 1"
proof -
  let ?ds = "if x \<in> waitq s then ds else ds @ [dispAlloc s]"
  have pow: "(signal x ^^ n) s = signal x s" using assms(2) by (rule signal_funpow)
  have mem: "x \<in> waitq (signal x s)" by (simp add: waitq_signal)
  have run: "run_ops ops (signal x s) = run_ops (filter (\<lambda>a. a \<noteq> Sig x) ops) (signal x s)"
    using mem assms(3) by (rule run_ops_without_signal)
  have inv: "queue_inv (signal x s) ?ds" using assms(1) by (rule queue_inv_signal)
  then have "waitq (signal x s) = set (fifo_edges (signal x s) ?ds)"
    and "distinct (fifo_edges (signal x s) ?ds)"
    by (simp_all add: queue_inv_def)
  with mem have cnt: "count_list (fifo_edges (signal x s) ?ds) x = 1"
    by (simp add: distinct_count_list)
  have "length ?ds \<le> Suc (length ds)" by simp
  with inv have "drain (Suc (length ds)) (signal x s) = fifo_edges (signal x s) ?ds"
    by (rule drain_fifo)
  with pow mem inv cnt run show ?thesis
    by (simp add: signal_pending)
qed

section \<open>Merging edges\<close>

lemma signal_frame:
  "incoming (signal x s) = incoming s" "outgoing (signal x s) = outgoing s"
  "pipes (signal x s) = pipes s" "edges (signal x s) = edges s" "ef (signal x s) = ef s"
  "keyIndex (signal x s) = keyIndex s" "pipeAlloc (signal x s) = pipeAlloc s"
  "waitClosed (signal x s) = waitClosed s"
  by (simp_all add: signal_def Let_def split: option.splits)

lemma inc_of_signal: "inc_of (signal x s) = inc_of s"
  by (rule ext) (simp add: inc_of_def signal_frame)

lemma out_of_signal: "out_of (signal x s) = out_of s"
  by (rule ext) (simp add: out_of_def signal_frame)

subsection \<open>The loop over the incoming pipes\<close>

lemma merge_incoming_eq:
  "merge_incoming target ps s =
     s\<lparr>pipes := (\<lambda>p. if p \<in> set ps then (pipes s p)\<lparr>Target := Some target\<rparr> else pipes s p),
       incoming := (if ps = [] then incoming s else (incoming s)(target \<mapsto> inc_of s target @ ps))\<rparr>"
proof (induction ps arbitrary: s)
  case Nil
  show ?case by simp
next
  case (Cons p ps)
  show ?case
    by (simp add: Cons.IH inc_of_def fun_eq_iff)
qed

lemma pipe_kept_refl: "pipe_kept P P"
  by (simp add: pipe_kept_def)

lemma pipe_kept_trans: "pipe_kept P P' \<Longrightarrow> pipe_kept P' P'' \<Longrightarrow> pipe_kept P P''"
  by (auto simp: pipe_kept_def split: if_splits)

lemma sched_kept_refl: "sched_kept s s"
  by (simp add: sched_kept_def)

lemma sched_kept_trans: "sched_kept s s' \<Longrightarrow> sched_kept s' s'' \<Longrightarrow> sched_kept s s''"
  by (auto simp: sched_kept_def)

lemma sched_kept_signal: "sched_kept s (signal x s)"
  by (auto simp: sched_kept_def signal_frame waitq_signal)

lemma Receive_kept: "pipe_kept P (snd (Receive P))"
  by (simp add: Receive_def pipe_kept_def)

lemma Receive_status: "ReceiverStatus (snd (Receive P)) = SenderStatus P"
  by (simp add: Receive_def)

lemma fire_open:
  assumes "\<not> Completed (SenderStatus (pipes s p))"
  shows "\<exists>s'. fire cb p s = Inr s' \<and> sched_kept s s'
           \<and> (\<forall>q. pipe_kept (pipes s q) (pipes s' q))"
proof (cases cb)
  case SignalFrom
  then show ?thesis
    by (simp add: fire_def sched_kept_signal signal_frame pipe_kept_refl)
next
  case SignalTarget
  then show ?thesis
    by (simp add: fire_def sched_kept_signal signal_frame pipe_kept_refl)
next
  case NotifyWaiter
  obtain ok P' where r: "Receive (pipes s p) = (ok, P')" by (cases "Receive (pipes s p)")
  then have P': "P' = snd (Receive (pipes s p))" by simp
  have st: "ReceiverStatus P' = SenderStatus (pipes s p)" unfolding P' by (rule Receive_status)
  have kept: "pipe_kept (pipes s p) P'" unfolding P' by (rule Receive_kept)
  from assms st have nc: "\<not> Completed (ReceiverStatus P')" by simp
  have "fire cb p s = Inr (s\<lparr>pipes := (pipes s)(p := P')\<rparr>)"
    using NotifyWaiter r nc by (simp add: fire_def Let_def)
  moreover have "sched_kept s (s\<lparr>pipes := (pipes s)(p := P')\<rparr>)"
    by (simp add: sched_kept_def)
  moreover have "\<forall>q. pipe_kept (pipes s q) (pipes (s\<lparr>pipes := (pipes s)(p := P')\<rparr>) q)"
    using kept by (simp add: pipe_kept_refl)
  ultimately show ?thesis by blast
qed

lemma fire_opt_open:
  assumes "\<not> Completed (SenderStatus (pipes s p))"
  shows "\<exists>s'. fire_opt cb p s = Inr s' \<and> sched_kept s s'
           \<and> (\<forall>q. pipe_kept (pipes s q) (pipes s' q))"
proof (cases cb)
  case None
  then show ?thesis by (simp add: fire_opt_def sched_kept_refl pipe_kept_refl)
next
  case (Some c)
  with fire_open [OF assms, of c] show ?thesis by (simp add: fire_opt_def)
qed

lemma receiverCancel_total:
  "\<exists>s'. receiverCancel p s = Inr s' \<and> sched_kept s s'
        \<and> (\<forall>q. pipe_kept (pipes s q) (pipes s' q))
        \<and> (Canceled (pipes s' p) \<or> Completed (SenderStatus (pipes s p)))"
proof (cases "Completed (SenderStatus (pipes s p)) \<or> Canceled (pipes s p)")
  case True
  then show ?thesis
    by (auto simp: receiverCancel_def sched_kept_refl pipe_kept_refl)
next
  case False
  let ?s1 = "s\<lparr>pipes := (pipes s)(p := (pipes s p)\<lparr>Canceled := True\<rparr>)\<rparr>"
  have k1: "sched_kept s ?s1" by (simp add: sched_kept_def)
  have p1: "\<forall>q. pipe_kept (pipes s q) (pipes ?s1 q)" by (simp add: pipe_kept_def)
  have c1: "Canceled (pipes ?s1 p)" by simp
  from False have o1: "\<not> Completed (SenderStatus (pipes ?s1 p))" by simp
  from fire_opt_open [OF o1, of "OnSendCompletion (pipes ?s1 p)"]
  obtain s2 where s2: "fire_opt (OnSendCompletion (pipes ?s1 p)) p ?s1 = Inr s2"
    and k2: "sched_kept ?s1 s2" and p2: "\<forall>q. pipe_kept (pipes ?s1 q) (pipes s2 q)" by blast
  from p2 o1 have o2: "\<not> Completed (SenderStatus (pipes s2 p))"
    by (auto simp: pipe_kept_def)
  from fire_opt_open [OF o2, of "OnReceiveCompletion (pipes s2 p)"]
  obtain s3 where s3: "fire_opt (OnReceiveCompletion (pipes s2 p)) p s2 = Inr s3"
    and k3: "sched_kept s2 s3" and p3: "\<forall>q. pipe_kept (pipes s2 q) (pipes s3 q)" by blast
  have "receiverCancel p s = Inr s3"
    using False s2 s3 by (simp add: receiverCancel_def Let_def)
  moreover have "sched_kept s s3"
    using k1 k2 k3 by (blast intro: sched_kept_trans)
  moreover have "\<forall>q. pipe_kept (pipes s q) (pipes s3 q)"
    using p1 p2 p3 by (blast intro: pipe_kept_trans)
  moreover have "Canceled (pipes s3 p)"
    using c1 p2 p3 by (auto simp: pipe_kept_def split: if_splits)
  ultimately show ?thesis by blast
qed

lemma merge_outgoing_total:
  "\<exists>s'. merge_outgoing target ps s = Inr s'
     \<and> incoming s' = incoming s \<and> edges s' = edges s \<and> ef s' = ef s
     \<and> keyIndex s' = keyIndex s \<and> pipeAlloc s' = pipeAlloc s \<and> waitq s \<subseteq> waitq s'
     \<and> outgoing s' = (if ps = [] then outgoing s else (outgoing s)(target \<mapsto> out_of s target @ ps))
     \<and> (\<forall>q. Target (pipes s' q) = Target (pipes s q)
            \<and> SenderStatus (pipes s' q) = SenderStatus (pipes s q)
            \<and> From (pipes s' q) = (if q \<in> set ps then Some target else From (pipes s q))
            \<and> (Canceled (pipes s q) \<longrightarrow> Canceled (pipes s' q)))
     \<and> (\<forall>q\<in>set ps. Canceled (pipes s' q) \<or> Completed (SenderStatus (pipes s q)))"
proof (induction ps arbitrary: s)
  case Nil
  show ?case by simp
next
  case (Cons out rest)
  let ?s0 = "s\<lparr>pipes := (pipes s)(out := (pipes s out)\<lparr>From := Some target\<rparr>),
               outgoing := (outgoing s)(target \<mapsto> out_of s target @ [out])\<rparr>"
  from receiverCancel_total [of out ?s0]
  obtain s1 where c: "receiverCancel out ?s0 = Inr s1" and k: "sched_kept ?s0 s1"
    and pk: "\<forall>q. pipe_kept (pipes ?s0 q) (pipes s1 q)"
    and cn: "Canceled (pipes s1 out) \<or> Completed (SenderStatus (pipes ?s0 out))" by blast
  from Cons.IH [of s1]
  obtain s' where m: "merge_outgoing target rest s1 = Inr s'"
    and fr: "incoming s' = incoming s1" "edges s' = edges s1" "ef s' = ef s1"
      "keyIndex s' = keyIndex s1" "pipeAlloc s' = pipeAlloc s1" "waitq s1 \<subseteq> waitq s'"
    and og: "outgoing s' = (if rest = [] then outgoing s1
                            else (outgoing s1)(target \<mapsto> out_of s1 target @ rest))"
    and pp: "\<forall>q. Target (pipes s' q) = Target (pipes s1 q)
            \<and> SenderStatus (pipes s' q) = SenderStatus (pipes s1 q)
            \<and> From (pipes s' q) = (if q \<in> set rest then Some target else From (pipes s1 q))
            \<and> (Canceled (pipes s1 q) \<longrightarrow> Canceled (pipes s' q))"
    and cc: "\<forall>q\<in>set rest. Canceled (pipes s' q) \<or> Completed (SenderStatus (pipes s1 q))"
    by blast
  from k have k': "incoming s1 = incoming s" "edges s1 = edges s" "ef s1 = ef s"
    "keyIndex s1 = keyIndex s" "pipeAlloc s1 = pipeAlloc s" "waitq s \<subseteq> waitq s1"
    "outgoing s1 = (outgoing s)(target \<mapsto> out_of s target @ [out])"
    by (simp_all add: sched_kept_def)
  from k'(7) have o1: "out_of s1 target = out_of s target @ [out]" by (simp add: out_of_def)
  have pk': "\<And>q. Target (pipes s1 q) = Target (pipes s q)
      \<and> SenderStatus (pipes s1 q) = SenderStatus (pipes s q)
      \<and> From (pipes s1 q) = (if q = out then Some target else From (pipes s q))
      \<and> (Canceled (pipes s q) \<longrightarrow> Canceled (pipes s1 q))"
    using pk by (auto simp: pipe_kept_def split: if_splits)
  have "merge_outgoing target (out # rest) s = Inr s'" using c m by simp
  moreover have "incoming s' = incoming s" "edges s' = edges s" "ef s' = ef s"
    "keyIndex s' = keyIndex s" "pipeAlloc s' = pipeAlloc s" "waitq s \<subseteq> waitq s'"
    using fr k' by auto
  moreover have "outgoing s' = (if out # rest = [] then outgoing s
      else (outgoing s)(target \<mapsto> out_of s target @ out # rest))"
    using og k'(7) o1 by simp
  moreover have "\<forall>q. Target (pipes s' q) = Target (pipes s q)
            \<and> SenderStatus (pipes s' q) = SenderStatus (pipes s q)
            \<and> From (pipes s' q) = (if q \<in> set (out # rest) then Some target else From (pipes s q))
            \<and> (Canceled (pipes s q) \<longrightarrow> Canceled (pipes s' q))"
    using pp pk' by auto
  moreover have "\<forall>q\<in>set (out # rest). Canceled (pipes s' q) \<or> Completed (SenderStatus (pipes s q))"
  proof
    fix q assume "q \<in> set (out # rest)"
    then consider "q = out" | "q \<in> set rest" by auto
    then show "Canceled (pipes s' q) \<or> Completed (SenderStatus (pipes s q))"
    proof cases
      case 1
      from cn have "Canceled (pipes s1 out) \<or> Completed (SenderStatus (pipes s out))" by simp
      with pp 1 show ?thesis by auto
    next
      case 2
      with cc pk' show ?thesis by auto
    qed
  qed
  ultimately show ?case by blast
qed

subsection \<open>The loop over the dependencies\<close>

lemma keys_loop_ok:
  "selectorAt cm i = Inr sel \<Longrightarrow>
   keys_loop cm i ks acc =
     Inr (acc @ map (\<lambda>k. \<lparr>index = i, key = \<lparr>Selector = sel, CacheKey = k\<rparr>\<rparr>) ks)"
  by (induction ks arbitrary: acc) simp_all

lemma keys_loop_nil: "keys_loop cm i [] acc = Inr acc"
  by simp

lemma keys_loop_panic:
  "selectorAt cm i = Inl pn \<Longrightarrow> ks \<noteq> [] \<Longrightarrow> keys_loop cm i ks acc = Inl pn"
  by (cases ks) simp_all

lemma keys_loop_sel_of:
  "ks = [] \<or> isl (selectorAt cm i) = False \<Longrightarrow>
   keys_loop cm i ks acc =
     Inr (acc @ map (\<lambda>k. \<lparr>index = i, key = \<lparr>Selector = sel_of cm i, CacheKey = k\<rparr>\<rparr>) ks)"
proof (cases "selectorAt cm i")
  case (Inl pn)
  assume "ks = [] \<or> isl (selectorAt cm i) = False"
  with Inl show ?thesis by simp
next
  case (Inr sel)
  then show ?thesis by (simp add: keys_loop_ok sel_of_def)
qed

lemma deps_loop_ok:
  "selectors_ok cm i ds \<Longrightarrow> deps_loop cm i ds acc = Inr (acc @ merged_exporters cm i ds)"
proof (induction ds arbitrary: i acc)
  case Nil
  show ?case by simp
next
  case (Cons d ds)
  from Cons.prems have ok: "selectors_ok cm (Suc i) ds"
    and need: "needsSelector d \<Longrightarrow> isl (selectorAt cm i) = False" by (simp_all split: if_splits)
  have k1: "keys d = [] \<or> isl (selectorAt cm i) = False"
    using need by (auto simp: needsSelector_def)
  have k2: "\<And>r. result d = Some r \<Longrightarrow> CacheKeys r = [] \<or> isl (selectorAt cm i) = False"
    using need by (auto simp: needsSelector_def)
  show ?case
    by (cases "result d"; cases "slowCacheKey d")
       (simp_all add: keys_loop_sel_of [OF k1] keys_loop_sel_of [OF k2] Cons.IH [OF ok]
          dep_exporters_def)
qed

lemma deps_loop_panic:
  "\<not> selectors_ok cm i ds \<Longrightarrow> isl (deps_loop cm i ds acc)"
proof (induction ds arbitrary: i acc)
  case Nil
  then show ?case by simp
next
  case (Cons d ds)
  show ?case
  proof (cases "needsSelector d \<and> isl (selectorAt cm i)")
    case True
    then obtain pn where pn: "selectorAt cm i = Inl pn" by (cases "selectorAt cm i") auto
    show ?thesis
    proof (cases "keys d = []")
      case False
      with pn show ?thesis by (simp add: keys_loop_panic)
    next
      case kn: True
      with True obtain r where r: "result d = Some r" "CacheKeys r \<noteq> []"
        by (auto simp: needsSelector_def split: option.splits)
      with pn kn show ?thesis
        by (cases "slowCacheKey d") (simp_all add: keys_loop_panic)
    qed
  next
    case False
    with Cons.prems have nok: "\<not> selectors_ok cm (Suc i) ds" by (auto split: if_splits)
    from False have k1: "keys d = [] \<or> isl (selectorAt cm i) = False"
      by (auto simp: needsSelector_def)
    from False have k2: "\<And>r. result d = Some r \<Longrightarrow> CacheKeys r = [] \<or> isl (selectorAt cm i) = False"
      by (auto simp: needsSelector_def)
    show ?thesis
      by (cases "result d"; cases "slowCacheKey d")
         (simp_all add: keys_loop_sel_of [OF k1] keys_loop_sel_of [OF k2] Cons.IH [OF nok])
  qed
qed

lemma mergeTo_skip: "skipsMerge s target src \<Longrightarrow> mergeTo target src s = Inr (False, s)"
  by (auto simp: skipsMerge_def mergeTo_def)

lemma mergeTo_unfold:
  assumes ns: "\<not> skipsMerge s target src"
  shows "\<exists>s2. merge_outgoing target (out_of s src) (merge_incoming target (inc_of s src) s) = Inr s2
    \<and> mergeTo target src s =
       (case deps_loop (cacheMap (edges s src)) 0 (deps (edges s src))
                (secondaryExporters (edges s target)) of
          Inl pn \<Rightarrow> Inl pn
        | Inr exps \<Rightarrow>
            Inr (True, (signal (Some target)
                   (s2\<lparr>incoming := (incoming s2)(src := None),
                       outgoing := (outgoing s2)(src := None)\<rparr>))
                 \<lparr>edges := (edges s)(target := (edges s target)\<lparr>secondaryExporters := exps\<rparr>)\<rparr>))"
proof -
  let ?s1 = "merge_incoming target (inc_of s src) s"
  have o1: "out_of ?s1 src = out_of s src" by (simp add: merge_incoming_eq out_of_def)
  have e1: "edges ?s1 = edges s" by (simp add: merge_incoming_eq)
  from merge_outgoing_total [of target "out_of s src" ?s1]
  obtain s2 where m: "merge_outgoing target (out_of s src) ?s1 = Inr s2"
    and e2: "edges s2 = edges ?s1" by blast
  from ns have c: "\<not> SkipEdgeMerge (Options (Vertex (edge (edges s target))))"
    "\<not> SkipEdgeMerge (Options (Vertex (edge (edges s src))))"
    "IgnoreCache (Options (Vertex (edge (edges s target))))
       \<or> \<not> IgnoreCache (Options (Vertex (edge (edges s src))))"
    by (auto simp: skipsMerge_def)
  have "mergeTo target src s =
       (case deps_loop (cacheMap (edges s src)) 0 (deps (edges s src))
                (secondaryExporters (edges s target)) of
          Inl pn \<Rightarrow> Inl pn
        | Inr exps \<Rightarrow>
            Inr (True, (signal (Some target)
                   (s2\<lparr>incoming := (incoming s2)(src := None),
                       outgoing := (outgoing s2)(src := None)\<rparr>))
                 \<lparr>edges := (edges s)(target := (edges s target)\<lparr>secondaryExporters := exps\<rparr>)\<rparr>))"
    using c m o1 e1 e2 by (auto simp: mergeTo_def Let_def signal_frame split: sum.splits)
  with m show ?thesis by blast
qed

text \<open>
  Claim C3. \<open>mergeTo\<close> returns false and leaves the whole scheduler state as it is when
  either vertex has the skip-merge option, or when the target does not ignore the cache
  and the source does. In every other case it returns true, for a source whose cache map
  has a selector for each dependency that carries keys.
\<close>

theorem mergeTo_skips_or_merges:
  "(skipsMerge s target src \<longrightarrow> mergeTo target src s = Inr (False, s))
   \<and> (\<not> skipsMerge s target src
        \<and> selectors_ok (cacheMap (edges s src)) 0 (deps (edges s src))
      \<longrightarrow> (\<exists>s'. mergeTo target src s = Inr (True, s')))"
proof (intro conjI impI)
  assume "skipsMerge s target src"
  then show "mergeTo target src s = Inr (False, s)" by (rule mergeTo_skip)
next
  assume a: "\<not> skipsMerge s target src
        \<and> selectors_ok (cacheMap (edges s src)) 0 (deps (edges s src))"
  from mergeTo_unfold [of s target src] a obtain s2 where
    "mergeTo target src s =
       (case deps_loop (cacheMap (edges s src)) 0 (deps (edges s src))
                (secondaryExporters (edges s target)) of
          Inl pn \<Rightarrow> Inl pn
        | Inr exps \<Rightarrow>
            Inr (True, (signal (Some target)
                   (s2\<lparr>incoming := (incoming s2)(src := None),
                       outgoing := (outgoing s2)(src := None)\<rparr>))
                 \<lparr>edges := (edges s)(target := (edges s target)\<lparr>secondaryExporters := exps\<rparr>)\<rparr>))"
    by blast
  with a show "\<exists>s'. mergeTo target src s = Inr (True, s')"
    by (simp add: deps_loop_ok)
qed

lemma mergeTo_merged:
  assumes mt: "mergeTo target src s = Inr (True, s')" and ne: "target \<noteq> src"
  shows "(\<forall>p\<in>set (inc_of s src). Target (pipes s' p) = Some target)
    \<and> inc_of s' target = inc_of s target @ inc_of s src
    \<and> (\<forall>p\<in>set (out_of s src). From (pipes s' p) = Some target
          \<and> (Canceled (pipes s' p) \<or> Completed (SenderStatus (pipes s p))))
    \<and> out_of s' target = out_of s target @ out_of s src
    \<and> incoming s' src = None \<and> outgoing s' src = None
    \<and> Some target \<in> waitq s'
    \<and> secondaryExporters (edges s' target) =
        secondaryExporters (edges s target)
          @ merged_exporters (cacheMap (edges s src)) 0 (deps (edges s src))
    \<and> mergeAndRedirect E target src s =
        Inr (s'\<lparr>ef := setEdge E (edge (edges s src)) target (ef s)\<rparr>)"
proof -
  have ns: "\<not> skipsMerge s target src"
  proof
    assume "skipsMerge s target src"
    then have "mergeTo target src s = Inr (False, s)" by (rule mergeTo_skip)
    with mt show False by simp
  qed
  let ?s1 = "merge_incoming target (inc_of s src) s"
  let ?cm = "cacheMap (edges s src)" and ?ds = "deps (edges s src)"
  let ?acc = "secondaryExporters (edges s target)"
  from mergeTo_unfold [OF ns] obtain s2 where
    m: "merge_outgoing target (out_of s src) ?s1 = Inr s2"
    and u: "mergeTo target src s =
       (case deps_loop ?cm 0 ?ds ?acc of
          Inl pn \<Rightarrow> Inl pn
        | Inr exps \<Rightarrow>
            Inr (True, (signal (Some target)
                   (s2\<lparr>incoming := (incoming s2)(src := None),
                       outgoing := (outgoing s2)(src := None)\<rparr>))
                 \<lparr>edges := (edges s)(target := (edges s target)\<lparr>secondaryExporters := exps\<rparr>)\<rparr>))"
    by blast
  have ok: "selectors_ok ?cm 0 ?ds"
  proof (rule ccontr)
    assume "\<not> selectors_ok ?cm 0 ?ds"
    then have "isl (deps_loop ?cm 0 ?ds ?acc)" by (rule deps_loop_panic)
    with u mt show False by (cases "deps_loop ?cm 0 ?ds ?acc") simp_all
  qed
  let ?exps = "?acc @ merged_exporters ?cm 0 ?ds"
  let ?s5 = "signal (Some target)
                   (s2\<lparr>incoming := (incoming s2)(src := None),
                       outgoing := (outgoing s2)(src := None)\<rparr>)"
  from u mt ok have s': "s' = ?s5\<lparr>edges := (edges s)(target := (edges s target)\<lparr>secondaryExporters := ?exps\<rparr>)\<rparr>"
    by (simp add: deps_loop_ok)
  from merge_outgoing_total [of target "out_of s src" ?s1] m
  have i2: "incoming s2 = incoming ?s1" and ef2: "ef s2 = ef ?s1"
    and o2: "outgoing s2 = (if out_of s src = [] then outgoing ?s1
                else (outgoing ?s1)(target \<mapsto> out_of ?s1 target @ out_of s src))"
    and p2: "\<forall>q. Target (pipes s2 q) = Target (pipes ?s1 q)
            \<and> SenderStatus (pipes s2 q) = SenderStatus (pipes ?s1 q)
            \<and> From (pipes s2 q) = (if q \<in> set (out_of s src) then Some target else From (pipes ?s1 q))
            \<and> (Canceled (pipes ?s1 q) \<longrightarrow> Canceled (pipes s2 q))"
    and c2: "\<forall>q\<in>set (out_of s src). Canceled (pipes s2 q) \<or> Completed (SenderStatus (pipes ?s1 q))"
    by auto
  have i1: "incoming ?s1 = (if inc_of s src = [] then incoming s
               else (incoming s)(target \<mapsto> inc_of s target @ inc_of s src))"
    and o1: "outgoing ?s1 = outgoing s" and ef1: "ef ?s1 = ef s"
    and p1: "\<And>q. Target (pipes ?s1 q) = (if q \<in> set (inc_of s src) then Some target else Target (pipes s q))"
      "\<And>q. SenderStatus (pipes ?s1 q) = SenderStatus (pipes s q)"
    by (simp_all add: merge_incoming_eq)
  have ps': "pipes s' = pipes s2" and is': "incoming s' = (incoming s2)(src := None)"
    and os': "outgoing s' = (outgoing s2)(src := None)" and efs': "ef s' = ef s2"
    and wq: "Some target \<in> waitq s'"
    and es': "edges s' = (edges s)(target := (edges s target)\<lparr>secondaryExporters := ?exps\<rparr>)"
    unfolding s' by (simp_all add: signal_frame waitq_signal)
  have A: "\<forall>p\<in>set (inc_of s src). Target (pipes s' p) = Some target"
    using ps' p2 p1 by simp
  have B: "inc_of s' target = inc_of s target @ inc_of s src"
    using is' i2 i1 ne by (simp add: inc_of_def)
  have C: "\<forall>p\<in>set (out_of s src). From (pipes s' p) = Some target
          \<and> (Canceled (pipes s' p) \<or> Completed (SenderStatus (pipes s p)))"
    using ps' p2 c2 p1(2) by simp
  have "out_of ?s1 target = out_of s target" using o1 by (simp add: out_of_def)
  then have D: "out_of s' target = out_of s target @ out_of s src"
    using os' o2 o1 ne by (simp add: out_of_def)
  have F: "incoming s' src = None \<and> outgoing s' src = None" using is' os' by simp
  have G: "secondaryExporters (edges s' target) = ?exps" using es' by simp
  have "edge (edges s' src) = edge (edges s src)" using es' by simp
  moreover have "ef s' = ef s" using efs' ef2 ef1 by simp
  ultimately have H: "mergeAndRedirect E target src s =
        Inr (s'\<lparr>ef := setEdge E (edge (edges s src)) target (ef s)\<rparr>)"
    using mt by (simp add: mergeAndRedirect_def)
  from A B C D F wq G H show ?thesis by blast
qed

lemma mergeTo_merges:
  "\<not> skipsMerge s target src \<Longrightarrow> selectors_ok (cacheMap (edges s src)) 0 (deps (edges s src))
   \<Longrightarrow> \<exists>s'. mergeTo target src s = Inr (True, s')"
  using mergeTo_unfold [of s target src] by (auto simp: deps_loop_ok)

lemma mergeTo_panics_without_selector:
  assumes "\<not> skipsMerge s target src"
    and "\<not> selectors_ok (cacheMap (edges s src)) 0 (deps (edges s src))"
  shows "isl (mergeTo target src s)"
proof -
  from assms(2) have "isl (deps_loop (cacheMap (edges s src)) 0 (deps (edges s src))
      (secondaryExporters (edges s target)))"
    by (rule deps_loop_panic)
  then obtain pn where "deps_loop (cacheMap (edges s src)) 0 (deps (edges s src))
      (secondaryExporters (edges s target)) = Inl pn"
    by (cases "deps_loop (cacheMap (edges s src)) 0 (deps (edges s src))
      (secondaryExporters (edges s target))") simp_all
  with mergeTo_unfold [OF assms(1)] show ?thesis by auto
qed

text \<open>
  Claim C4. When \<open>mergeTo\<close> returns true for two different edges: every incoming pipe of
  the source has \<open>Target\<close> set to the target and the target's incoming list is extended by
  them; every outgoing pipe of the source has \<open>From\<close> set to the target, is cancelled (it
  carries the cancellation mark unless it was already completed) and the target's outgoing
  list is extended by them; the source is deleted from both maps; the target is signalled;
  the target's secondary exporters are extended by the keys, the slow key and the result
  keys of each dependency of the source; and the dispatcher then redirects the source's
  \<open>Edge\<close> to the target through \<open>setEdge\<close>.
\<close>

theorem mergeTo_effects:
  assumes mt: "mergeTo target src s = Inr (True, s')" and ne: "target \<noteq> src"
  shows "(\<forall>p\<in>set (inc_of s src). Target (pipes s' p) = Some target)
    \<and> inc_of s' target = inc_of s target @ inc_of s src
    \<and> (\<forall>p\<in>set (out_of s src). From (pipes s' p) = Some target
          \<and> (Canceled (pipes s' p) \<or> Completed (SenderStatus (pipes s p))))
    \<and> out_of s' target = out_of s target @ out_of s src
    \<and> incoming s' src = None \<and> outgoing s' src = None
    \<and> Some target \<in> waitq s'
    \<and> secondaryExporters (edges s' target) =
        secondaryExporters (edges s target)
          @ merged_exporters (cacheMap (edges s src)) 0 (deps (edges s src))
    \<and> mergeAndRedirect E target src s =
        Inr (s'\<lparr>ef := setEdge E (edge (edges s src)) target (ef s)\<rparr>)"
  using mt ne by (rule mergeTo_merged)

section \<open>Concrete runs: the queue and the merge\<close>

lemmas st_defs = sC_def mkPipe_def mkEdge_def zeroPipe_def zeroStatus_def dep0_def
  E1_def E2_def E3_def vtx_def

lemmas ex_defs = sC_def EC_def mkPipe_def mkEdge_def zeroPipe_def zeroStatus_def dep0_def
  E1_def E2_def E3_def vtx_def

lemma sQ_inv: "queue_inv sQ [0]"
  by (simp add: sQ_def queue_inv_def signal_def newScheduler_def fifo_edges_def Let_def)

theorem waitq_is_fifo_membership_witness:
  "queue_inv sQ [0]
   \<and> queue_inv (signal (Some 2) sQ) [0, 1]
   \<and> queue_inv (signal (Some 1) sQ) [0]
   \<and> fst (dequeue sQ) = Some 0
   \<and> queue_inv (snd (dequeue sQ)) []
   \<and> Some 1 \<in> waitq sQ \<and> Some 1 \<in> set (fifo_edges sQ [0])
   \<and> count_list (fifo_edges sQ [0]) (Some 1) = 1
   \<and> Some 2 \<notin> waitq sQ \<and> count_list (fifo_edges sQ [0]) (Some 2) = 0"
proof -
  have inv: "queue_inv sQ [0]"
    by (simp add: sQ_def queue_inv_def signal_def newScheduler_def fifo_edges_def Let_def)
  have w1: "Some 1 \<in> waitq sQ" and w2: "Some 2 \<notin> waitq sQ" and al: "dispAlloc sQ = 1"
    by (simp_all add: sQ_def signal_def newScheduler_def Let_def)
  have e2: "(if Some 2 \<in> waitq sQ then [0] else [0] @ [dispAlloc sQ]) = [0, 1]"
    using w2 al by simp
  have e1: "(if Some 1 \<in> waitq sQ then [0] else [0] @ [dispAlloc sQ]) = [0]"
    using w1 by simp
  have c2: "(if Some 2 \<in> waitq sQ then 1 else 0) = (0::nat)" using w2 by simp
  have c1: "(if Some 1 \<in> waitq sQ then 1 else 0) = (1::nat)" using w1 by simp
  have hd: "(case [0::nat] of [] \<Rightarrow> None | d # x \<Rightarrow> Some d) = Some 0" and tl: "tl [0::nat] = []"
    by simp_all
  note T2 = waitq_is_fifo_membership
    [of "()" "()" "\<lambda>_. mkEdge E3 [] False" sQ "[0]" "Some 2", unfolded e2 c2 hd tl]
  note T1 = waitq_is_fifo_membership
    [of "()" "()" "\<lambda>_. mkEdge E3 [] False" sQ "[0]" "Some 1", unfolded e1 c1 hd tl]
  from T2 inv have a: "queue_inv (signal (Some 2) sQ) [0, 1]" "fst (dequeue sQ) = Some 0"
    "queue_inv (snd (dequeue sQ)) []" "count_list (fifo_edges sQ [0]) (Some 2) = 0"
    by blast+
  from T1 inv w1 have b: "queue_inv (signal (Some 1) sQ) [0]" "Some 1 \<in> set (fifo_edges sQ [0])"
    "count_list (fifo_edges sQ [0]) (Some 1) = 1"
    by blast+
  from inv a b w1 w2 show ?thesis by blast
qed

theorem signal_idempotent_while_pending_witness:
  "queue_inv sQ [0]
   \<and> stays_pending (Some 2) [Sig (Some 2), Sig (Some 3), Deq, Sig (Some 2)] (signal (Some 2) sQ)
   \<and> (signal (Some 2) ^^ 3) sQ = signal (Some 2) sQ
   \<and> signal (Some 2) (signal (Some 2) sQ) = signal (Some 2) sQ
   \<and> run_ops [Sig (Some 2), Sig (Some 3), Deq, Sig (Some 2)] (signal (Some 2) sQ)
       = run_ops [Sig (Some 3), Deq] (signal (Some 2) sQ)
   \<and> queue_inv ((signal (Some 2) ^^ 3) sQ) [0, 1]
   \<and> fifo_edges (signal (Some 2) sQ) [0, 1] = [Some 1, Some 2]
   \<and> count_list (fifo_edges ((signal (Some 2) ^^ 3) sQ) [0, 1]) (Some 2) = 1
   \<and> drain 2 (signal (Some 2) sQ) = [Some 1, Some 2]
   \<and> count_list (drain 2 ((signal (Some 2) ^^ 3) sQ)) (Some 2) = 1"
proof -
  have inv: "queue_inv sQ [0]"
    by (simp add: sQ_def queue_inv_def signal_def newScheduler_def fifo_edges_def Let_def)
  have w2: "Some 2 \<notin> waitq sQ" and al: "dispAlloc sQ = 1"
    by (simp_all add: sQ_def signal_def newScheduler_def Let_def)
  have pos: "0 < (3::nat)" by simp
  have sp: "stays_pending (Some 2) [Sig (Some 2), Sig (Some 3), Deq, Sig (Some 2)] (signal (Some 2) sQ)"
    by (simp add: sQ_def signal_def newScheduler_def dequeue_def Let_def)
  have e2: "(if Some 2 \<in> waitq sQ then [0] else [0] @ [dispAlloc sQ]) = [0, 1]"
    using w2 al by simp
  have len: "Suc (length [0::nat]) = 2" by simp
  have flt: "filter (\<lambda>a. a \<noteq> Sig (Some 2)) [Sig (Some 2), Sig (Some 3), Deq, Sig (Some 2)]
      = [Sig (Some 3), Deq]" by simp
  note T = signal_idempotent_while_pending [OF inv pos sp, unfolded e2 len flt]
  from T have a: "(signal (Some 2) ^^ 3) sQ = signal (Some 2) sQ"
    "signal (Some 2) (signal (Some 2) sQ) = signal (Some 2) sQ"
    "run_ops [Sig (Some 2), Sig (Some 3), Deq, Sig (Some 2)] (signal (Some 2) sQ)
       = run_ops [Sig (Some 3), Deq] (signal (Some 2) sQ)"
    "queue_inv ((signal (Some 2) ^^ 3) sQ) [0, 1]"
    "count_list (fifo_edges ((signal (Some 2) ^^ 3) sQ) [0, 1]) (Some 2) = 1"
    "count_list (drain 2 ((signal (Some 2) ^^ 3) sQ)) (Some 2) = 1"
    by blast+
  have fe: "fifo_edges (signal (Some 2) sQ) [0, 1] = [Some 1, Some 2]"
    by (simp add: sQ_def signal_def newScheduler_def fifo_edges_def Let_def)
  have dr: "drain 2 (signal (Some 2) sQ) = [Some 1, Some 2]"
    by (simp add: sQ_def signal_def newScheduler_def dequeue_def Let_def numeral_2_eq_2)
  from inv sp a fe dr show ?thesis by blast
qed

theorem mergeTo_skips_or_merges_witness:
  "skipsMerge sSkip 1 2 \<and> mergeTo 1 2 sSkip = Inr (False, sSkip)
   \<and> \<not> skipsMerge sC 1 2
   \<and> selectors_ok (cacheMap (edges sC 2)) 0 (deps (edges sC 2))
   \<and> (\<exists>s'. mergeTo 1 2 sC = Inr (True, s'))"
proof -
  have sk: "skipsMerge sSkip 1 2"
    by (simp add: skipsMerge_def sSkip_def ex_defs)
  have ns: "\<not> skipsMerge sC 1 2"
    by (simp add: skipsMerge_def ex_defs)
  have ok: "selectors_ok (cacheMap (edges sC 2)) 0 (deps (edges sC 2))"
    by (simp add: ex_defs selectorAt_def needsSelector_def)
  from mergeTo_skips_or_merges [of sSkip 1 2] sk
  have a: "mergeTo 1 2 sSkip = Inr (False, sSkip)" by blast
  from mergeTo_skips_or_merges [of sC 1 2] ns ok
  have b: "\<exists>s'. mergeTo 1 2 sC = Inr (True, s')" by blast
  from sk ns ok a b show ?thesis by blast
qed

theorem mergeTo_effects_witness:
  "\<exists>s'. mergeTo 1 2 sC = Inr (True, s')
     \<and> Target (pipes s' 2) = Some 1
     \<and> inc_of s' 1 = [0, 2]
     \<and> From (pipes s' 3) = Some 1 \<and> Canceled (pipes s' 3)
     \<and> out_of s' 1 = [1, 3]
     \<and> incoming s' 2 = None \<and> outgoing s' 2 = None
     \<and> Some 1 \<in> waitq s'
     \<and> secondaryExporters (edges s' 1) =
         [\<lparr>index = 0, key = \<lparr>Selector = ''sel'', CacheKey = ''k3''\<rparr>\<rparr>,
          \<lparr>index = 0, key = \<lparr>Selector = [], CacheKey = ''slow3''\<rparr>\<rparr>,
          \<lparr>index = 0, key = \<lparr>Selector = ''sel'', CacheKey = ''r3''\<rparr>\<rparr>]
     \<and> mergeAndRedirect EC 1 2 sC = Inr (s'\<lparr>ef := (ef sC)(E2 \<mapsto> 1)\<rparr>)"
proof -
  have ns: "\<not> skipsMerge sC 1 2"
    by (simp add: skipsMerge_def ex_defs)
  have ok: "selectors_ok (cacheMap (edges sC 2)) 0 (deps (edges sC 2))"
    by (simp add: ex_defs selectorAt_def needsSelector_def)
  from mergeTo_merges [OF ns ok] obtain s' where m: "mergeTo 1 2 sC = Inr (True, s')" by blast
  have ne: "(1::nat) \<noteq> 2" by simp
  have i2: "inc_of sC 2 = [2]" and i1: "inc_of sC 1 = [0]" and o2: "out_of sC 2 = [3]"
    and o1: "out_of sC 1 = [1]" and nc: "\<not> Completed (SenderStatus (pipes sC 3))"
    and ex: "secondaryExporters (edges sC 1) = []"
    and me: "merged_exporters (cacheMap (edges sC 2)) 0 (deps (edges sC 2)) =
         [\<lparr>index = 0, key = \<lparr>Selector = ''sel'', CacheKey = ''k3''\<rparr>\<rparr>,
          \<lparr>index = 0, key = \<lparr>Selector = [], CacheKey = ''slow3''\<rparr>\<rparr>,
          \<lparr>index = 0, key = \<lparr>Selector = ''sel'', CacheKey = ''r3''\<rparr>\<rparr>]"
    by (simp_all add: ex_defs inc_of_def out_of_def dep_exporters_def sel_of_def selectorAt_def)
  have se: "setEdge EC (edge (edges sC 2)) 1 (ef sC) = (ef sC)(E2 \<mapsto> 1)"
    by (simp add: EC_def sC_def mkEdge_def)
  from mergeTo_effects [OF m ne, of EC] i2 i1 o2 o1 nc ex me se
  have "Target (pipes s' 2) = Some 1 \<and> inc_of s' 1 = [0, 2]
     \<and> From (pipes s' 3) = Some 1 \<and> Canceled (pipes s' 3)
     \<and> out_of s' 1 = [1, 3]
     \<and> incoming s' 2 = None \<and> outgoing s' 2 = None
     \<and> Some 1 \<in> waitq s'
     \<and> secondaryExporters (edges s' 1) =
         [\<lparr>index = 0, key = \<lparr>Selector = ''sel'', CacheKey = ''k3''\<rparr>\<rparr>,
          \<lparr>index = 0, key = \<lparr>Selector = [], CacheKey = ''slow3''\<rparr>\<rparr>,
          \<lparr>index = 0, key = \<lparr>Selector = ''sel'', CacheKey = ''r3''\<rparr>\<rparr>]
     \<and> mergeAndRedirect EC 1 2 sC = Inr (s'\<lparr>ef := (ef sC)(E2 \<mapsto> 1)\<rparr>)"
    by simp
  with m show ?thesis by blast
qed

section \<open>The merge decision and the check after \<open>unpark\<close>\<close>

lemma mergeDecision_found:
  assumes "keysDidChange (edges s x)" and "currentIndexKey E (edges s x) = Some k"
    and "LoadOrStore E k x (keyIndex s) = (Some orig, idx')"
  shows "mergeDecision E x s =
    (if isDep E (edges s x) (edges s orig) \<or> isDep E (edges s orig) (edges s x)
     then Inr (s\<lparr>keyIndex := idx', edges := (edges s)(x := (edges s x)\<lparr>keysDidChange := False\<rparr>)\<rparr>)
     else (case mergeAndRedirect E
                  (if hasOwner E (ef s) (edge (edges s orig)) (edge (edges s x)) then x else orig)
                  (if hasOwner E (ef s) (edge (edges s orig)) (edge (edges s x)) then orig else x)
                  (s\<lparr>keyIndex := idx'\<rparr>) of
             Inl pn \<Rightarrow> Inl pn
           | Inr s2 \<Rightarrow> Inr (s2\<lparr>edges := (edges s2)(x := (edges s2 x)\<lparr>keysDidChange := False\<rparr>)\<rparr>)))"
  using assms by (simp add: mergeDecision_def Let_def)

text \<open>
  Claim C5. When the merge decision finds the current index key claimed by another edge
  and either edge is a dependency of the other, the merge is skipped: the decision only
  records the answer of the key index and clears \<open>keysDidChange\<close>. The factory, the pipe
  maps, the pipes, the wait queue and the secondary exporters of both edges stay as they
  were: nothing that \<open>mergeTo\<close> or \<open>setEdge\<close> does takes place.
\<close>

theorem merge_skipped_for_ancestors:
  assumes "keysDidChange (edges s x)" and "currentIndexKey E (edges s x) = Some k"
    and "LoadOrStore E k x (keyIndex s) = (Some orig, idx')"
    and "isDep E (edges s x) (edges s orig) \<or> isDep E (edges s orig) (edges s x)"
  shows "mergeDecision E x s =
      Inr (s\<lparr>keyIndex := idx', edges := (edges s)(x := (edges s x)\<lparr>keysDidChange := False\<rparr>)\<rparr>)
    \<and> (\<exists>s'. mergeDecision E x s = Inr s'
          \<and> ef s' = ef s \<and> incoming s' = incoming s \<and> outgoing s' = outgoing s
          \<and> pipes s' = pipes s \<and> waitq s' = waitq s
          \<and> secondaryExporters (edges s' x) = secondaryExporters (edges s x)
          \<and> secondaryExporters (edges s' orig) = secondaryExporters (edges s orig))"
  using assms by (simp add: mergeDecision_found)

text \<open>
  Claim C1. When the key index already maps the current key to another edge \<open>orig\<close> and
  neither edge is a dependency of the other, \<open>orig\<close> is the merge target and the current
  edge the source, except that the roles are swapped when \<open>orig\<close> is owned by the current
  edge, which \<open>dispatch\<close> asks of the factory as \<open>hasOwner(origEdge.edge, e.edge)\<close>: the
  current edge is then the target and \<open>orig\<close> the source. When the merge then goes through,
  the target holds the pipes of both edges, the source is gone from the maps and the
  factory maps the \<open>Edge\<close> of the source to the target.
\<close>

theorem merge_survivor_choice:
  assumes "keysDidChange (edges s x)" and "currentIndexKey E (edges s x) = Some k"
    and "LoadOrStore E k x (keyIndex s) = (Some orig, idx')"
    and "\<not> isDep E (edges s x) (edges s orig)" and "\<not> isDep E (edges s orig) (edges s x)"
    and "dest = (if hasOwner E (ef s) (edge (edges s orig)) (edge (edges s x)) then x else orig)"
    and "src = (if hasOwner E (ef s) (edge (edges s orig)) (edge (edges s x)) then orig else x)"
  shows "mergeDecision E x s =
      (case mergeAndRedirect E dest src (s\<lparr>keyIndex := idx'\<rparr>) of
         Inl pn \<Rightarrow> Inl pn
       | Inr s2 \<Rightarrow> Inr (s2\<lparr>edges := (edges s2)(x := (edges s2 x)\<lparr>keysDidChange := False\<rparr>)\<rparr>))
    \<and> (orig \<noteq> x \<and> \<not> skipsMerge s dest src
         \<and> selectors_ok (cacheMap (edges s src)) 0 (deps (edges s src)) \<longrightarrow>
        (\<exists>s'. mergeDecision E x s = Inr s'
           \<and> inc_of s' dest = inc_of s dest @ inc_of s src
           \<and> out_of s' dest = out_of s dest @ out_of s src
           \<and> incoming s' src = None \<and> outgoing s' src = None
           \<and> (\<forall>p\<in>set (inc_of s src). Target (pipes s' p) = Some dest)
           \<and> (\<forall>p\<in>set (out_of s src). From (pipes s' p) = Some dest)
           \<and> ef s' = setEdge E (edge (edges s src)) dest (ef s)))"
proof (intro conjI impI)
  let ?s1 = "s\<lparr>keyIndex := idx'\<rparr>"
  show eq: "mergeDecision E x s =
      (case mergeAndRedirect E dest src ?s1 of
         Inl pn \<Rightarrow> Inl pn
       | Inr s2 \<Rightarrow> Inr (s2\<lparr>edges := (edges s2)(x := (edges s2 x)\<lparr>keysDidChange := False\<rparr>)\<rparr>))"
    using assms by (simp add: mergeDecision_found)
  assume a: "orig \<noteq> x \<and> \<not> skipsMerge s dest src
         \<and> selectors_ok (cacheMap (edges s src)) 0 (deps (edges s src))"
  from a assms(6,7) have ne: "dest \<noteq> src" by (auto split: if_splits)
  have fr: "inc_of ?s1 = inc_of s" "out_of ?s1 = out_of s" "edges ?s1 = edges s" "ef ?s1 = ef s"
    by (simp_all add: inc_of_def out_of_def fun_eq_iff)
  from a have ns: "\<not> skipsMerge ?s1 dest src"
    and ok: "selectors_ok (cacheMap (edges ?s1 src)) 0 (deps (edges ?s1 src))"
    by (simp_all add: skipsMerge_def)
  from mergeTo_merges [OF ns ok] obtain s2 where m: "mergeTo dest src ?s1 = Inr (True, s2)"
    by blast
  note M = mergeTo_merged [OF m ne, of E, unfolded fr]
  let ?s3 = "s2\<lparr>ef := setEdge E (edge (edges s src)) dest (ef s)\<rparr>"
  let ?s4 = "?s3\<lparr>edges := (edges ?s3)(x := (edges ?s3 x)\<lparr>keysDidChange := False\<rparr>)\<rparr>"
  from M have mr: "mergeAndRedirect E dest src ?s1 = Inr ?s3" by blast
  with eq have d: "mergeDecision E x s = Inr ?s4" by simp
  have "inc_of ?s4 = inc_of s2" "out_of ?s4 = out_of s2"
    by (simp_all add: inc_of_def out_of_def fun_eq_iff)
  with M have "inc_of ?s4 dest = inc_of s dest @ inc_of s src"
    "out_of ?s4 dest = out_of s dest @ out_of s src"
    "incoming ?s4 src = None \<and> outgoing ?s4 src = None"
    "\<forall>p\<in>set (inc_of s src). Target (pipes ?s4 p) = Some dest"
    "\<forall>p\<in>set (out_of s src). From (pipes ?s4 p) = Some dest"
    "ef ?s4 = setEdge E (edge (edges s src)) dest (ef s)"
    by simp_all
  with d show "\<exists>s'. mergeDecision E x s = Inr s'
           \<and> inc_of s' dest = inc_of s dest @ inc_of s src
           \<and> out_of s' dest = out_of s dest @ out_of s src
           \<and> incoming s' src = None \<and> outgoing s' src = None
           \<and> (\<forall>p\<in>set (inc_of s src). Target (pipes s' p) = Some dest)
           \<and> (\<forall>p\<in>set (out_of s src). From (pipes s' p) = Some dest)
           \<and> ef s' = setEdge E (edge (edges s src)) dest (ef s)"
    by blast
qed

lemma out_of_incoming_upd: "out_of (s\<lparr>incoming := m\<rparr>) x = out_of s x"
  by (simp add: out_of_def)

lemma openOutgoing_incoming_upd: "openOutgoing (s\<lparr>incoming := m\<rparr>) x = openOutgoing s x"
  unfolding openOutgoing_def out_of_incoming_upd by simp

lemma prune_eq:
  "prune x s =
     (openIncoming s x, openOutgoing s x,
      s\<lparr>incoming := (if openIncoming s x = [] then (incoming s)(x := None)
                       else (incoming s)(x \<mapsto> openIncoming s x)),
        outgoing := (if openOutgoing s x = [] then (outgoing s)(x := None)
                       else (outgoing s)(x \<mapsto> openOutgoing s x))\<rparr>)"
  by (cases "openIncoming s x = []"; cases "openOutgoing s x = []")
     (simp_all add: prune_def Let_def openOutgoing_incoming_upd)

lemma validate_eq:
  "validate x oi oo s =
     (if (oi = []) \<noteq> (oo = [])
      then markFailed x (if oo = [] then errIncomingOpen else errOutgoingOpen) s
      else s)"
  by (auto simp: validate_def Let_def)

lemma filter_empty_iff: "filter P xs = [] \<longleftrightarrow> (\<forall>r\<in>set xs. \<not> P r)"
  by (simp add: filter_empty_conv)

text \<open>
  Claim C2. In every dispatch of an edge that reaches the check, after \<open>unpark\<close> has
  returned in state \<open>s1\<close>: the pruning computes \<open>oi\<close>, the incoming pipes of the edge whose
  sender is not completed, and \<open>oo\<close>, its outgoing pipes whose receiver is not completed,
  in the order of the maps, and the maps then hold exactly these lists for the edge (no
  entry for an empty list); \<open>oi\<close> is empty exactly when every incoming pipe is completed,
  and likewise \<open>oo\<close>. When exactly one of the two lists is empty the edge is marked failed
  with a scheduler error, and when both are empty or both are non-empty the check leaves
  the state, and so the error of the edge, as the merge decision left it.
\<close>

theorem dispatch_postcondition_check:
  assumes "dispatch_unpark E x s = s1" and "prune x s1 = (oi, oo, s2)"
    and "mergeDecision E x s2 = Inr s3"
  shows "oi = filter (\<lambda>r. \<not> Completed (SenderStatus (pipes s1 r))) (inc_of s1 x)
    \<and> oo = filter (\<lambda>r. \<not> Completed (ReceiverStatus (pipes s1 r))) (out_of s1 x)
    \<and> (oi = [] \<longleftrightarrow> (\<forall>r\<in>set (inc_of s1 x). Completed (SenderStatus (pipes s1 r))))
    \<and> (oo = [] \<longleftrightarrow> (\<forall>r\<in>set (out_of s1 x). Completed (ReceiverStatus (pipes s1 r))))
    \<and> incoming s2 = (incoming s1)(x := (if oi = [] then None else Some oi))
    \<and> outgoing s2 = (outgoing s1)(x := (if oo = [] then None else Some oo))
    \<and> pipes s2 = pipes s1 \<and> edges s2 = edges s1
    \<and> dispatch E x s =
        Inr (if (oi = []) \<noteq> (oo = [])
             then markFailed x (if oo = [] then errIncomingOpen else errOutgoingOpen) s3
             else s3)
    \<and> (\<exists>s4. dispatch E x s = Inr s4
          \<and> err (edges s4 x) =
              (if oi \<noteq> [] \<and> oo = [] then Some errIncomingOpen
               else if oi = [] \<and> oo \<noteq> [] then Some errOutgoingOpen
               else err (edges s3 x)))
    \<and> prefix ''buildkit scheduler error'' errIncomingOpen
    \<and> prefix ''buildkit scheduler error'' errOutgoingOpen"
proof -
  from assms(2) have oi: "oi = filter (\<lambda>r. \<not> Completed (SenderStatus (pipes s1 r))) (inc_of s1 x)"
    and oo: "oo = filter (\<lambda>r. \<not> Completed (ReceiverStatus (pipes s1 r))) (out_of s1 x)"
    by (simp_all add: prune_eq openIncoming_def openOutgoing_def)
  from oi have ei: "oi = [] \<longleftrightarrow> (\<forall>r\<in>set (inc_of s1 x). Completed (SenderStatus (pipes s1 r)))"
    by (simp add: filter_empty_iff)
  from oo have eo: "oo = [] \<longleftrightarrow> (\<forall>r\<in>set (out_of s1 x). Completed (ReceiverStatus (pipes s1 r)))"
    by (simp add: filter_empty_iff)
  from assms(2) have inc: "incoming s2 = (incoming s1)(x := (if oi = [] then None else Some oi))"
    and out: "outgoing s2 = (outgoing s1)(x := (if oo = [] then None else Some oo))"
    and fr: "pipes s2 = pipes s1" "edges s2 = edges s1"
    by (auto simp: prune_eq)
  have d: "dispatch E x s =
        Inr (if (oi = []) \<noteq> (oo = [])
             then markFailed x (if oo = [] then errIncomingOpen else errOutgoingOpen) s3
             else s3)"
    using assms by (simp add: dispatch_def validate_eq)
  have e: "\<exists>s4. dispatch E x s = Inr s4
          \<and> err (edges s4 x) =
              (if oi \<noteq> [] \<and> oo = [] then Some errIncomingOpen
               else if oi = [] \<and> oo \<noteq> [] then Some errOutgoingOpen
               else err (edges s3 x))"
    unfolding d by (auto simp: markFailed_def)
  have p: "prefix ''buildkit scheduler error'' errIncomingOpen"
    "prefix ''buildkit scheduler error'' errOutgoingOpen"
    by (simp_all add: errIncomingOpen_def errOutgoingOpen_def)
  from oi oo ei eo inc out fr d e p show ?thesis by blast
qed

section \<open>\<open>build\<close>\<close>

lemma newPipe_root:
  "\<exists>s1. newPipe x None req s = (pipeAlloc s, s1)
     \<and> pipes s1 = (pipes s)(pipeAlloc s := zeroPipe\<lparr>Target := Some x, From := None,
           Payload := req, OnReceiveCompletion := Some SignalTarget\<rparr>)
     \<and> incoming s1 = (incoming s)(x \<mapsto> inc_of s x @ [pipeAlloc s])
     \<and> outgoing s1 = outgoing s \<and> edges s1 = edges s \<and> ef s1 = ef s
     \<and> keyIndex s1 = keyIndex s \<and> pipeAlloc s1 = Suc (pipeAlloc s)
     \<and> waitq s1 = insert (Some x) (waitq s) \<and> waitClosed s1 = waitClosed s"
  by (simp add: newPipe_def Let_def signal_frame waitq_signal inc_of_def fun_eq_iff)

lemma build_begin_unknown:
  "getEdge E (ef s) ed = None \<Longrightarrow> build_begin E ed s = Inl (InvalidRequest ed)"
  by (simp add: build_begin_def)

lemma build_begin_known:
  assumes "getEdge E (ef s) ed = Some x"
  shows "\<exists>s1. build_begin E ed s = Inr (pipeAlloc s, s1)
     \<and> Target (pipes s1 (pipeAlloc s)) = Some x
     \<and> From (pipes s1 (pipeAlloc s)) = None
     \<and> desiredState (Payload (pipes s1 (pipeAlloc s))) = edgeStatusComplete
     \<and> OnSendCompletion (pipes s1 (pipeAlloc s)) = Some NotifyWaiter
     \<and> \<not> Completed (SenderStatus (pipes s1 (pipeAlloc s)))
     \<and> \<not> Completed (ReceiverStatus (pipes s1 (pipeAlloc s)))
     \<and> pipeAlloc s \<notin> waitClosed s1
     \<and> inc_of s1 x = inc_of s x @ [pipeAlloc s]
     \<and> outgoing s1 = outgoing s
     \<and> Some x \<in> waitq s1"
proof -
  let ?s0 = "s\<lparr>waitClosed := waitClosed s - {pipeAlloc s}\<rparr>"
  from newPipe_root [of x "\<lparr>desiredState = edgeStatusComplete\<rparr>" ?s0]
  obtain s1 where n: "newPipe x None \<lparr>desiredState = edgeStatusComplete\<rparr> ?s0 = (pipeAlloc s, s1)"
    and p: "pipes s1 = (pipes s)(pipeAlloc s := zeroPipe\<lparr>Target := Some x, From := None,
           Payload := \<lparr>desiredState = edgeStatusComplete\<rparr>, OnReceiveCompletion := Some SignalTarget\<rparr>)"
    and i: "incoming s1 = (incoming s)(x \<mapsto> inc_of ?s0 x @ [pipeAlloc s])"
    and o: "outgoing s1 = outgoing s" and w: "waitq s1 = insert (Some x) (waitq s)"
    and c: "waitClosed s1 = waitClosed s - {pipeAlloc s}"
    by auto
  have i0: "inc_of ?s0 x = inc_of s x" by (simp add: inc_of_def)
  let ?s2 = "s1\<lparr>pipes := (pipes s1)(pipeAlloc s := (pipes s1 (pipeAlloc s))\<lparr>OnSendCompletion := Some NotifyWaiter\<rparr>)\<rparr>"
  have "build_begin E ed s = Inr (pipeAlloc s, ?s2)"
    using assms n by (simp add: build_begin_def Let_def)
  moreover have "Target (pipes ?s2 (pipeAlloc s)) = Some x" "From (pipes ?s2 (pipeAlloc s)) = None"
    "desiredState (Payload (pipes ?s2 (pipeAlloc s))) = edgeStatusComplete"
    "OnSendCompletion (pipes ?s2 (pipeAlloc s)) = Some NotifyWaiter"
    "\<not> Completed (SenderStatus (pipes ?s2 (pipeAlloc s)))"
    "\<not> Completed (ReceiverStatus (pipes ?s2 (pipeAlloc s)))"
    using p by (simp_all add: zeroPipe_def zeroStatus_def)
  moreover have "pipeAlloc s \<notin> waitClosed ?s2" using c by simp
  moreover have "inc_of ?s2 x = inc_of s x @ [pipeAlloc s]" using i i0 by (simp add: inc_of_def)
  moreover have "outgoing ?s2 = outgoing s" "Some x \<in> waitq ?s2" using o w by simp_all
  ultimately show ?thesis by blast
qed

lemma Receive_sender: "SenderStatus (snd (Receive P)) = SenderStatus P"
  by (simp add: Receive_def)

lemma Receive_callback: "OnSendCompletion (snd (Receive P)) = OnSendCompletion P"
  by (simp add: Receive_def)

lemma notifyWaiter_cases:
  "fire NotifyWaiter p s =
     (if Completed (SenderStatus (pipes s p)) then
        (if p \<in> waitClosed s then Inl CloseOfClosedChannel
         else Inr (s\<lparr>pipes := (pipes s)(p := snd (Receive (pipes s p))),
                     waitClosed := insert p (waitClosed s)\<rparr>))
      else Inr (s\<lparr>pipes := (pipes s)(p := snd (Receive (pipes s p)))\<rparr>))"
proof -
  obtain ok P' where r: "Receive (pipes s p) = (ok, P')" by (cases "Receive (pipes s p)")
  then have P': "snd (Receive (pipes s p)) = P'" by simp
  have st: "ReceiverStatus P' = SenderStatus (pipes s p)"
    unfolding P' [symmetric] by (rule Receive_status)
  show ?thesis unfolding P' using r st by (simp add: fire_def Let_def)
qed

lemma notifyWaiter_closes:
  assumes "p \<notin> waitClosed s" and "Completed (SenderStatus (pipes s p))"
  shows "\<exists>s'. fire NotifyWaiter p s = Inr s' \<and> p \<in> waitClosed s'
           \<and> ReceiverStatus (pipes s' p) = SenderStatus (pipes s p)"
  using assms by (simp add: notifyWaiter_cases Receive_status)

lemma notifyWaiter_inv:
  assumes "wait_inv p s" and "fire NotifyWaiter p s = Inr s'"
  shows "wait_inv p s'"
proof (cases "Completed (SenderStatus (pipes s p))")
  case True
  with assms(2) have nc: "p \<notin> waitClosed s"
    and s': "s' = s\<lparr>pipes := (pipes s)(p := snd (Receive (pipes s p))),
                     waitClosed := insert p (waitClosed s)\<rparr>"
    by (simp_all add: notifyWaiter_cases split: if_splits)
  show ?thesis unfolding s' using True assms(1)
    by (simp add: wait_inv_def Receive_status Receive_sender Receive_callback)
next
  case False
  with assms(2) have s': "s' = s\<lparr>pipes := (pipes s)(p := snd (Receive (pipes s p)))\<rparr>"
    by (simp add: notifyWaiter_cases)
  from False assms(1) have "p \<notin> waitClosed s"
    by (auto simp: wait_inv_def split: if_splits)
  then show ?thesis unfolding s' using assms(1)
    by (simp add: wait_inv_def Receive_callback)
qed

lemma world_step_inv: "wait_inv p s \<Longrightarrow> wait_inv p (world_step p f s)"
  by (simp add: wait_inv_def world_step_def Let_def split: if_splits)

lemma receiverCancel_inv:
  assumes "wait_inv p s" and "receiverCancel p s = Inr s'"
  shows "wait_inv p s'"
proof (cases "p \<in> waitClosed s")
  case True
  with assms(1) have "Completed (SenderStatus (pipes s p))"
    by (simp add: wait_inv_def)
  with assms(2) have "s' = s" by (simp add: receiverCancel_def)
  with assms(1) show ?thesis by simp
next
  case False
  from receiverCancel_total [of p s] assms(2)
  have "sched_kept s s'" and "pipe_kept (pipes s p) (pipes s' p)" by auto
  then have "waitClosed s' = waitClosed s"
    and "OnSendCompletion (pipes s' p) = OnSendCompletion (pipes s p)"
    by (simp_all add: sched_kept_def pipe_kept_def)
  with False assms(1) show ?thesis by (simp add: wait_inv_def)
qed

lemma run_event_inv:
  "wait_inv p s \<Longrightarrow> run_event p ev s = Inr s' \<Longrightarrow> wait_inv p s'"
proof (cases ev)
  case (World f)
  assume "wait_inv p s" and "run_event p ev s = Inr s'"
  with World show ?thesis using world_step_inv [of p s f] by auto
next
  case SendCompletion
  assume "wait_inv p s" and "run_event p ev s = Inr s'"
  with SendCompletion show ?thesis using notifyWaiter_inv [of p s s']
    by (simp add: wait_inv_def fire_opt_def)
next
  case CtxDone
  assume "wait_inv p s" and "run_event p ev s = Inr s'"
  with CtxDone show ?thesis using receiverCancel_inv [of p s s'] by simp
qed

lemma run_events_inv:
  "wait_inv p s \<Longrightarrow> run_events p evs s = Inr s' \<Longrightarrow> wait_inv p s'"
proof (induction evs arbitrary: s)
  case Nil
  then show ?case by simp
next
  case (Cons ev evs)
  from Cons.prems(2) obtain s1 where e: "run_event p ev s = Inr s1"
    and r: "run_events p evs s1 = Inr s'"
    by (cases "run_event p ev s") simp_all
  from Cons.prems(1) e have "wait_inv p s1" by (rule run_event_inv)
  from Cons.IH [OF this r] show ?case .
qed

lemma run_events_append:
  "run_events p (evs @ evs') s =
     (case run_events p evs s of Inl pn \<Rightarrow> Inl pn | Inr t \<Rightarrow> run_events p evs' t)"
  by (induction evs arbitrary: s) (simp_all split: sum.splits)

lemma build_end_returns: "p \<in> waitClosed t \<Longrightarrow> build_end E p t \<noteq> Blocked"
  by (simp add: build_end_def split: option.splits any_value.splits)

text \<open>
  Claim C7. \<open>build\<close> resolves the edge through the factory. For an unknown edge it returns
  an error at once and the scheduler state is the one it was called in. Otherwise it
  creates a root pipe whose target is the resolved edge, which has no source edge, whose
  request asks for the complete result and which is not completed, installs its closure
  as the callback of the pipe, registers the pipe and signals the edge, and it blocks:
  with no event it is blocked, and after any events it is blocked exactly as long as
  \<open>wait\<close> is open. The closure stays the callback of the pipe; \<open>wait\<close> is closed only when
  the receiver has seen the pipe completed with the status of the sender; and once the
  sender has completed the pipe, the call of the callback closes \<open>wait\<close> and \<open>build\<close>
  returns: the error of the pipe if there is one, and else a clone of the cached result
  that the value of the pipe carries.
\<close>

theorem build_behaviour:
  "(getEdge E (ef s) ed = None \<longrightarrow>
       build E evs ed s = (Returned (Inl (InvalidRequest ed)), s))
   \<and> (getEdge E (ef s) ed = Some x \<longrightarrow>
       (\<exists>s1. build_begin E ed s = Inr (pipeAlloc s, s1)
          \<and> Target (pipes s1 (pipeAlloc s)) = Some x
          \<and> From (pipes s1 (pipeAlloc s)) = None
          \<and> desiredState (Payload (pipes s1 (pipeAlloc s))) = edgeStatusComplete
          \<and> OnSendCompletion (pipes s1 (pipeAlloc s)) = Some NotifyWaiter
          \<and> \<not> Completed (SenderStatus (pipes s1 (pipeAlloc s)))
          \<and> pipeAlloc s \<notin> waitClosed s1
          \<and> inc_of s1 x = inc_of s x @ [pipeAlloc s]
          \<and> Some x \<in> waitq s1
          \<and> build E [] ed s = (Blocked, s1)
          \<and> (\<forall>t. run_events (pipeAlloc s) evs s1 = Inr t \<longrightarrow>
                build E evs ed s = (build_end E (pipeAlloc s) t, t)
              \<and> OnSendCompletion (pipes t (pipeAlloc s)) = Some NotifyWaiter
              \<and> (fst (build E evs ed s) = Blocked \<longleftrightarrow> pipeAlloc s \<notin> waitClosed t)
              \<and> (pipeAlloc s \<in> waitClosed t \<longrightarrow>
                    Completed (ReceiverStatus (pipes t (pipeAlloc s)))
                    \<and> SenderStatus (pipes t (pipeAlloc s)) = ReceiverStatus (pipes t (pipeAlloc s)))
              \<and> (pipeAlloc s \<notin> waitClosed t \<and> Completed (SenderStatus (pipes t (pipeAlloc s))) \<longrightarrow>
                    (\<exists>t'. run_events (pipeAlloc s) (evs @ [SendCompletion]) s1 = Inr t'
                       \<and> pipeAlloc s \<in> waitClosed t'
                       \<and> ReceiverStatus (pipes t' (pipeAlloc s)) = SenderStatus (pipes t (pipeAlloc s))
                       \<and> build E (evs @ [SendCompletion]) ed s = (build_end E (pipeAlloc s) t', t')
                       \<and> fst (build E (evs @ [SendCompletion]) ed s) \<noteq> Blocked
                       \<and> (Err (SenderStatus (pipes t (pipeAlloc s))) = Some msg \<longrightarrow>
                            fst (build E (evs @ [SendCompletion]) ed s) = Returned (Inl (PipeError msg)))
                       \<and> (Err (SenderStatus (pipes t (pipeAlloc s))) = None
                            \<and> Value (SenderStatus (pipes t (pipeAlloc s))) = EdgeStateValue (Some r) \<longrightarrow>
                            fst (build E (evs @ [SendCompletion]) ed s)
                              = Returned (Inr (CloneCachedResult E r)))))
              \<and> (pipeAlloc s \<in> waitClosed t
                   \<and> Err (ReceiverStatus (pipes t (pipeAlloc s))) = Some msg \<longrightarrow>
                    build E evs ed s = (Returned (Inl (PipeError msg)), t))
              \<and> (pipeAlloc s \<in> waitClosed t
                   \<and> Err (ReceiverStatus (pipes t (pipeAlloc s))) = None
                   \<and> Value (ReceiverStatus (pipes t (pipeAlloc s))) = EdgeStateValue (Some r) \<longrightarrow>
                    build E evs ed s = (Returned (Inr (CloneCachedResult E r)), t)))))"
proof (intro conjI impI)
  assume "getEdge E (ef s) ed = None"
  then show "build E evs ed s = (Returned (Inl (InvalidRequest ed)), s)"
    by (simp add: build_def build_begin_unknown)
next
  assume k: "getEdge E (ef s) ed = Some x"
  define p where "p = pipeAlloc s"
  from build_begin_known [OF k] obtain s1 where b: "build_begin E ed s = Inr (p, s1)"
    and r1: "Target (pipes s1 p) = Some x" and r2: "From (pipes s1 p) = None"
    and r3: "desiredState (Payload (pipes s1 p)) = edgeStatusComplete"
    and r4: "OnSendCompletion (pipes s1 p) = Some NotifyWaiter"
    and r7: "\<not> Completed (SenderStatus (pipes s1 p))"
    and r5: "inc_of s1 x = inc_of s x @ [p]" and r6: "Some x \<in> waitq s1"
    and nc: "p \<notin> waitClosed s1"
    unfolding p_def by blast
  from nc r4 have inv1: "wait_inv p s1" by (simp add: wait_inv_def)
  have b0: "build E [] ed s = (Blocked, s1)"
    using b nc by (simp add: build_def build_end_def)
  have main: "\<forall>t. run_events p evs s1 = Inr t \<longrightarrow>
                build E evs ed s = (build_end E p t, t)
              \<and> OnSendCompletion (pipes t p) = Some NotifyWaiter
              \<and> (fst (build E evs ed s) = Blocked \<longleftrightarrow> p \<notin> waitClosed t)
              \<and> (p \<in> waitClosed t \<longrightarrow>
                    Completed (ReceiverStatus (pipes t p))
                    \<and> SenderStatus (pipes t p) = ReceiverStatus (pipes t p))
              \<and> (p \<notin> waitClosed t \<and> Completed (SenderStatus (pipes t p)) \<longrightarrow>
                    (\<exists>t'. run_events p (evs @ [SendCompletion]) s1 = Inr t'
                       \<and> p \<in> waitClosed t'
                       \<and> ReceiverStatus (pipes t' p) = SenderStatus (pipes t p)
                       \<and> build E (evs @ [SendCompletion]) ed s = (build_end E p t', t')
                       \<and> fst (build E (evs @ [SendCompletion]) ed s) \<noteq> Blocked
                       \<and> (Err (SenderStatus (pipes t p)) = Some msg \<longrightarrow>
                            fst (build E (evs @ [SendCompletion]) ed s) = Returned (Inl (PipeError msg)))
                       \<and> (Err (SenderStatus (pipes t p)) = None
                            \<and> Value (SenderStatus (pipes t p)) = EdgeStateValue (Some r) \<longrightarrow>
                            fst (build E (evs @ [SendCompletion]) ed s)
                              = Returned (Inr (CloneCachedResult E r)))))
              \<and> (p \<in> waitClosed t \<and> Err (ReceiverStatus (pipes t p)) = Some msg \<longrightarrow>
                    build E evs ed s = (Returned (Inl (PipeError msg)), t))
              \<and> (p \<in> waitClosed t \<and> Err (ReceiverStatus (pipes t p)) = None
                   \<and> Value (ReceiverStatus (pipes t p)) = EdgeStateValue (Some r) \<longrightarrow>
                    build E evs ed s = (Returned (Inr (CloneCachedResult E r)), t))"
  proof (intro allI impI)
    fix t
    assume run: "run_events p evs s1 = Inr t"
    have bd: "build E evs ed s = (build_end E p t, t)"
      using b run by (simp add: build_def)
    have bl: "fst (build E evs ed s) = Blocked \<longleftrightarrow> p \<notin> waitClosed t"
    proof
      assume "fst (build E evs ed s) = Blocked"
      then have "build_end E p t = Blocked" by (simp add: bd)
      with build_end_returns [of p t E] show "p \<notin> waitClosed t" by blast
    next
      assume "p \<notin> waitClosed t"
      then show "fst (build E evs ed s) = Blocked" by (simp add: bd build_end_def)
    qed
    from inv1 run have inv: "wait_inv p t" by (rule run_events_inv)
    then have cb: "OnSendCompletion (pipes t p) = Some NotifyWaiter"
      by (simp add: wait_inv_def)
    from inv have cl: "p \<in> waitClosed t \<longrightarrow>
                    Completed (ReceiverStatus (pipes t p))
                    \<and> SenderStatus (pipes t p) = ReceiverStatus (pipes t p)"
      by (simp add: wait_inv_def split: if_splits)
    have lv: "p \<notin> waitClosed t \<and> Completed (SenderStatus (pipes t p)) \<longrightarrow>
                    (\<exists>t'. run_events p (evs @ [SendCompletion]) s1 = Inr t'
                       \<and> p \<in> waitClosed t'
                       \<and> ReceiverStatus (pipes t' p) = SenderStatus (pipes t p)
                       \<and> build E (evs @ [SendCompletion]) ed s = (build_end E p t', t')
                       \<and> fst (build E (evs @ [SendCompletion]) ed s) \<noteq> Blocked
                       \<and> (Err (SenderStatus (pipes t p)) = Some msg \<longrightarrow>
                            fst (build E (evs @ [SendCompletion]) ed s) = Returned (Inl (PipeError msg)))
                       \<and> (Err (SenderStatus (pipes t p)) = None
                            \<and> Value (SenderStatus (pipes t p)) = EdgeStateValue (Some r) \<longrightarrow>
                            fst (build E (evs @ [SendCompletion]) ed s)
                              = Returned (Inr (CloneCachedResult E r))))"
    proof
      assume a: "p \<notin> waitClosed t \<and> Completed (SenderStatus (pipes t p))"
      with notifyWaiter_closes [of p t] obtain t' where f: "fire NotifyWaiter p t = Inr t'"
        and c': "p \<in> waitClosed t'"
        and r': "ReceiverStatus (pipes t' p) = SenderStatus (pipes t p)"
        by blast
      have ra: "run_events p (evs @ [SendCompletion]) s1 = Inr t'"
        using run f cb by (simp add: run_events_append fire_opt_def)
      with b have bd': "build E (evs @ [SendCompletion]) ed s = (build_end E p t', t')"
        by (simp add: build_def)
      from c' have nb: "fst (build E (evs @ [SendCompletion]) ed s) \<noteq> Blocked"
        unfolding bd' using build_end_returns [of p t' E] by simp
      have e1: "Err (SenderStatus (pipes t p)) = Some msg \<longrightarrow>
                  fst (build E (evs @ [SendCompletion]) ed s) = Returned (Inl (PipeError msg))"
        unfolding bd' using c' r' by (simp add: build_end_def)
      have e2: "Err (SenderStatus (pipes t p)) = None
                  \<and> Value (SenderStatus (pipes t p)) = EdgeStateValue (Some r) \<longrightarrow>
                  fst (build E (evs @ [SendCompletion]) ed s) = Returned (Inr (CloneCachedResult E r))"
        unfolding bd' using c' r' by (simp add: build_end_def)
      from ra c' r' bd' nb e1 e2
      show "\<exists>t'. run_events p (evs @ [SendCompletion]) s1 = Inr t'
                       \<and> p \<in> waitClosed t'
                       \<and> ReceiverStatus (pipes t' p) = SenderStatus (pipes t p)
                       \<and> build E (evs @ [SendCompletion]) ed s = (build_end E p t', t')
                       \<and> fst (build E (evs @ [SendCompletion]) ed s) \<noteq> Blocked
                       \<and> (Err (SenderStatus (pipes t p)) = Some msg \<longrightarrow>
                            fst (build E (evs @ [SendCompletion]) ed s) = Returned (Inl (PipeError msg)))
                       \<and> (Err (SenderStatus (pipes t p)) = None
                            \<and> Value (SenderStatus (pipes t p)) = EdgeStateValue (Some r) \<longrightarrow>
                            fst (build E (evs @ [SendCompletion]) ed s)
                              = Returned (Inr (CloneCachedResult E r)))"
        by (intro exI [of _ t'] conjI)
    qed
    have er: "p \<in> waitClosed t \<and> Err (ReceiverStatus (pipes t p)) = Some msg \<longrightarrow>
                    build E evs ed s = (Returned (Inl (PipeError msg)), t)"
      unfolding bd by (simp add: build_end_def)
    have ok: "p \<in> waitClosed t \<and> Err (ReceiverStatus (pipes t p)) = None
                   \<and> Value (ReceiverStatus (pipes t p)) = EdgeStateValue (Some r) \<longrightarrow>
                    build E evs ed s = (Returned (Inr (CloneCachedResult E r)), t)"
      unfolding bd by (simp add: build_end_def)
    from bd cb bl cl lv er ok
    show "build E evs ed s = (build_end E p t, t)
              \<and> OnSendCompletion (pipes t p) = Some NotifyWaiter
              \<and> (fst (build E evs ed s) = Blocked \<longleftrightarrow> p \<notin> waitClosed t)
              \<and> (p \<in> waitClosed t \<longrightarrow>
                    Completed (ReceiverStatus (pipes t p))
                    \<and> SenderStatus (pipes t p) = ReceiverStatus (pipes t p))
              \<and> (p \<notin> waitClosed t \<and> Completed (SenderStatus (pipes t p)) \<longrightarrow>
                    (\<exists>t'. run_events p (evs @ [SendCompletion]) s1 = Inr t'
                       \<and> p \<in> waitClosed t'
                       \<and> ReceiverStatus (pipes t' p) = SenderStatus (pipes t p)
                       \<and> build E (evs @ [SendCompletion]) ed s = (build_end E p t', t')
                       \<and> fst (build E (evs @ [SendCompletion]) ed s) \<noteq> Blocked
                       \<and> (Err (SenderStatus (pipes t p)) = Some msg \<longrightarrow>
                            fst (build E (evs @ [SendCompletion]) ed s) = Returned (Inl (PipeError msg)))
                       \<and> (Err (SenderStatus (pipes t p)) = None
                            \<and> Value (SenderStatus (pipes t p)) = EdgeStateValue (Some r) \<longrightarrow>
                            fst (build E (evs @ [SendCompletion]) ed s)
                              = Returned (Inr (CloneCachedResult E r)))))
              \<and> (p \<in> waitClosed t \<and> Err (ReceiverStatus (pipes t p)) = Some msg \<longrightarrow>
                    build E evs ed s = (Returned (Inl (PipeError msg)), t))
              \<and> (p \<in> waitClosed t \<and> Err (ReceiverStatus (pipes t p)) = None
                   \<and> Value (ReceiverStatus (pipes t p)) = EdgeStateValue (Some r) \<longrightarrow>
                    build E evs ed s = (Returned (Inr (CloneCachedResult E r)), t))"
      by (intro conjI)
  qed
  from b r1 r2 r3 r4 r7 nc r5 r6 b0 main
  show "\<exists>s1. build_begin E ed s = Inr (pipeAlloc s, s1)
          \<and> Target (pipes s1 (pipeAlloc s)) = Some x
          \<and> From (pipes s1 (pipeAlloc s)) = None
          \<and> desiredState (Payload (pipes s1 (pipeAlloc s))) = edgeStatusComplete
          \<and> OnSendCompletion (pipes s1 (pipeAlloc s)) = Some NotifyWaiter
          \<and> \<not> Completed (SenderStatus (pipes s1 (pipeAlloc s)))
          \<and> pipeAlloc s \<notin> waitClosed s1
          \<and> inc_of s1 x = inc_of s x @ [pipeAlloc s]
          \<and> Some x \<in> waitq s1
          \<and> build E [] ed s = (Blocked, s1)
          \<and> (\<forall>t. run_events (pipeAlloc s) evs s1 = Inr t \<longrightarrow>
                build E evs ed s = (build_end E (pipeAlloc s) t, t)
              \<and> OnSendCompletion (pipes t (pipeAlloc s)) = Some NotifyWaiter
              \<and> (fst (build E evs ed s) = Blocked \<longleftrightarrow> pipeAlloc s \<notin> waitClosed t)
              \<and> (pipeAlloc s \<in> waitClosed t \<longrightarrow>
                    Completed (ReceiverStatus (pipes t (pipeAlloc s)))
                    \<and> SenderStatus (pipes t (pipeAlloc s)) = ReceiverStatus (pipes t (pipeAlloc s)))
              \<and> (pipeAlloc s \<notin> waitClosed t \<and> Completed (SenderStatus (pipes t (pipeAlloc s))) \<longrightarrow>
                    (\<exists>t'. run_events (pipeAlloc s) (evs @ [SendCompletion]) s1 = Inr t'
                       \<and> pipeAlloc s \<in> waitClosed t'
                       \<and> ReceiverStatus (pipes t' (pipeAlloc s)) = SenderStatus (pipes t (pipeAlloc s))
                       \<and> build E (evs @ [SendCompletion]) ed s = (build_end E (pipeAlloc s) t', t')
                       \<and> fst (build E (evs @ [SendCompletion]) ed s) \<noteq> Blocked
                       \<and> (Err (SenderStatus (pipes t (pipeAlloc s))) = Some msg \<longrightarrow>
                            fst (build E (evs @ [SendCompletion]) ed s) = Returned (Inl (PipeError msg)))
                       \<and> (Err (SenderStatus (pipes t (pipeAlloc s))) = None
                            \<and> Value (SenderStatus (pipes t (pipeAlloc s))) = EdgeStateValue (Some r) \<longrightarrow>
                            fst (build E (evs @ [SendCompletion]) ed s)
                              = Returned (Inr (CloneCachedResult E r)))))
              \<and> (pipeAlloc s \<in> waitClosed t
                   \<and> Err (ReceiverStatus (pipes t (pipeAlloc s))) = Some msg \<longrightarrow>
                    build E evs ed s = (Returned (Inl (PipeError msg)), t))
              \<and> (pipeAlloc s \<in> waitClosed t
                   \<and> Err (ReceiverStatus (pipes t (pipeAlloc s))) = None
                   \<and> Value (ReceiverStatus (pipes t (pipeAlloc s))) = EdgeStateValue (Some r) \<longrightarrow>
                    build E evs ed s = (Returned (Inr (CloneCachedResult E r)), t)))"
    unfolding p_def by (intro exI [of _ s1] conjI)
qed

section \<open>Concrete runs: the merge decision, the check and \<open>build\<close>\<close>

lemmas wit_defs = sMixed_def sAllDone_def sRootDone_def senderCompletes_def doneStatus_def
  failedStatus_def res9_def

lemma dispatch_unpark_EC:
  "dispatch_unpark EC x s =
     snd (receive_loop x (out_of s x) []
            (s\<lparr>edges := (edges s)(x := (edges s x)\<lparr>hasActiveOutgoing := False\<rparr>)\<rparr>))"
  by (simp add: dispatch_unpark_def EC_def Let_def split: prod.splits)

theorem dispatch_postcondition_check_witness:
  "(\<exists>s4. dispatch EC 3 sMixed = Inr s4 \<and> err (edges s4 3) = Some errIncomingOpen
         \<and> incoming s4 3 = Some [3] \<and> outgoing s4 3 = None)
   \<and> (\<exists>s4. dispatch EC 3 sAllDone = Inr s4 \<and> err (edges s4 3) = None
         \<and> incoming s4 3 = None \<and> outgoing s4 3 = None)
   \<and> (\<exists>s4. dispatch EC 2 sRootDone = Inr s4 \<and> err (edges s4 2) = Some errOutgoingOpen
         \<and> incoming s4 2 = None \<and> outgoing s4 2 = Some [3])
   \<and> (\<exists>s4. dispatch EC 2 sC = Inr s4 \<and> err (edges s4 2) = None
         \<and> incoming s4 2 = Some [2] \<and> outgoing s4 2 = Some [3])
   \<and> (\<exists>s4. dispatch EC 2 sAllDone = Inr s4 \<and> err (edges s4 2) = Some errIncomingOpen
         \<and> incoming s4 2 = Some [2] \<and> outgoing s4 2 = None)"
proof -
  have m: "\<And>x s2. \<not> keysDidChange (edges s2 x) \<Longrightarrow> mergeDecision EC x s2 = Inr s2"
    by (simp add: mergeDecision_def)
  have va: "fst (prune 3 (dispatch_unpark EC 3 sMixed)) = [3]" "fst (snd (prune 3 (dispatch_unpark EC 3 sMixed))) = []"
    and ka: "\<not> keysDidChange (edges (snd (snd (prune 3 (dispatch_unpark EC 3 sMixed)))) 3)"
    and ea: "err (edges (snd (snd (prune 3 (dispatch_unpark EC 3 sMixed)))) 3) = None"
    by (simp_all add: prune_eq openIncoming_def openOutgoing_def inc_of_def out_of_def
        dispatch_unpark_EC Receive_def wit_defs st_defs)
  have ia: "incoming (dispatch_unpark EC 3 sMixed) 3 = Some [1, 3]"
    "outgoing (dispatch_unpark EC 3 sMixed) 3 = None"
    by (simp_all add: dispatch_unpark_EC inc_of_def out_of_def Receive_def wit_defs st_defs)
  have pa: "prune 3 (dispatch_unpark EC 3 sMixed) = (fst (prune 3 (dispatch_unpark EC 3 sMixed)), fst (snd (prune 3 (dispatch_unpark EC 3 sMixed))), snd (snd (prune 3 (dispatch_unpark EC 3 sMixed))))"
    by simp
  note Ta = dispatch_postcondition_check [OF refl pa m [OF ka], unfolded va]
  from Ta have da: "dispatch EC 3 sMixed =
      Inr (if ([3] = ([]::nat list)) \<noteq> ([] = ([]::nat list))
           then markFailed 3 (if [] = ([]::nat list) then errIncomingOpen else errOutgoingOpen) (snd (snd (prune 3 (dispatch_unpark EC 3 sMixed))))
           else snd (snd (prune 3 (dispatch_unpark EC 3 sMixed))))"
    and ja: "incoming (snd (snd (prune 3 (dispatch_unpark EC 3 sMixed)))) = (incoming (dispatch_unpark EC 3 sMixed))(3 := (if [3] = ([]::nat list) then None else Some [3]))"
      "outgoing (snd (snd (prune 3 (dispatch_unpark EC 3 sMixed)))) = (outgoing (dispatch_unpark EC 3 sMixed))(3 := (if [] = ([]::nat list) then None else Some []))"
    by blast+
  from da have "dispatch EC 3 sMixed = Inr (markFailed 3 errIncomingOpen (snd (snd (prune 3 (dispatch_unpark EC 3 sMixed)))))" by simp
  moreover have "err (edges (markFailed 3 errIncomingOpen (snd (snd (prune 3 (dispatch_unpark EC 3 sMixed))))) 3) = Some errIncomingOpen"
    "incoming (markFailed 3 errIncomingOpen (snd (snd (prune 3 (dispatch_unpark EC 3 sMixed))))) 3 = Some [3]" "outgoing (markFailed 3 errIncomingOpen (snd (snd (prune 3 (dispatch_unpark EC 3 sMixed))))) 3 = None"
    using ea ja by (simp_all add: markFailed_def)
  ultimately have ra: "\<exists>s4. dispatch EC 3 sMixed = Inr s4 \<and> err (edges s4 3) = Some errIncomingOpen
         \<and> incoming s4 3 = Some [3] \<and> outgoing s4 3 = None"
    by blast
  have vb: "fst (prune 3 (dispatch_unpark EC 3 sAllDone)) = []" "fst (snd (prune 3 (dispatch_unpark EC 3 sAllDone))) = []"
    and kb: "\<not> keysDidChange (edges (snd (snd (prune 3 (dispatch_unpark EC 3 sAllDone)))) 3)"
    and eb: "err (edges (snd (snd (prune 3 (dispatch_unpark EC 3 sAllDone)))) 3) = None"
    by (simp_all add: prune_eq openIncoming_def openOutgoing_def inc_of_def out_of_def
        dispatch_unpark_EC Receive_def wit_defs st_defs)
  have ib: "incoming (dispatch_unpark EC 3 sAllDone) 3 = Some [1, 3]"
    "outgoing (dispatch_unpark EC 3 sAllDone) 3 = None"
    by (simp_all add: dispatch_unpark_EC inc_of_def out_of_def Receive_def wit_defs st_defs)
  have pb: "prune 3 (dispatch_unpark EC 3 sAllDone) = (fst (prune 3 (dispatch_unpark EC 3 sAllDone)), fst (snd (prune 3 (dispatch_unpark EC 3 sAllDone))), snd (snd (prune 3 (dispatch_unpark EC 3 sAllDone))))"
    by simp
  note Tb = dispatch_postcondition_check [OF refl pb m [OF kb], unfolded vb]
  from Tb have db: "dispatch EC 3 sAllDone =
      Inr (if ([] = ([]::nat list)) \<noteq> ([] = ([]::nat list))
           then markFailed 3 (if [] = ([]::nat list) then errIncomingOpen else errOutgoingOpen) (snd (snd (prune 3 (dispatch_unpark EC 3 sAllDone))))
           else snd (snd (prune 3 (dispatch_unpark EC 3 sAllDone))))"
    and jb: "incoming (snd (snd (prune 3 (dispatch_unpark EC 3 sAllDone)))) = (incoming (dispatch_unpark EC 3 sAllDone))(3 := (if [] = ([]::nat list) then None else Some []))"
      "outgoing (snd (snd (prune 3 (dispatch_unpark EC 3 sAllDone)))) = (outgoing (dispatch_unpark EC 3 sAllDone))(3 := (if [] = ([]::nat list) then None else Some []))"
    by blast+
  from db have "dispatch EC 3 sAllDone = Inr ((snd (snd (prune 3 (dispatch_unpark EC 3 sAllDone)))))" by simp
  moreover have "err (edges ((snd (snd (prune 3 (dispatch_unpark EC 3 sAllDone))))) 3) = None"
    "incoming ((snd (snd (prune 3 (dispatch_unpark EC 3 sAllDone))))) 3 = None" "outgoing ((snd (snd (prune 3 (dispatch_unpark EC 3 sAllDone))))) 3 = None"
    using eb jb by (simp_all add: markFailed_def)
  ultimately have rb: "\<exists>s4. dispatch EC 3 sAllDone = Inr s4 \<and> err (edges s4 3) = None
         \<and> incoming s4 3 = None \<and> outgoing s4 3 = None"
    by blast
  have vc: "fst (prune 2 (dispatch_unpark EC 2 sRootDone)) = []" "fst (snd (prune 2 (dispatch_unpark EC 2 sRootDone))) = [3]"
    and kc: "\<not> keysDidChange (edges (snd (snd (prune 2 (dispatch_unpark EC 2 sRootDone)))) 2)"
    and ec: "err (edges (snd (snd (prune 2 (dispatch_unpark EC 2 sRootDone)))) 2) = None"
    by (simp_all add: prune_eq openIncoming_def openOutgoing_def inc_of_def out_of_def
        dispatch_unpark_EC Receive_def wit_defs st_defs)
  have ic: "incoming (dispatch_unpark EC 2 sRootDone) 2 = Some [2]"
    "outgoing (dispatch_unpark EC 2 sRootDone) 2 = Some [3]"
    by (simp_all add: dispatch_unpark_EC inc_of_def out_of_def Receive_def wit_defs st_defs)
  have pc: "prune 2 (dispatch_unpark EC 2 sRootDone) = (fst (prune 2 (dispatch_unpark EC 2 sRootDone)), fst (snd (prune 2 (dispatch_unpark EC 2 sRootDone))), snd (snd (prune 2 (dispatch_unpark EC 2 sRootDone))))"
    by simp
  note Tc = dispatch_postcondition_check [OF refl pc m [OF kc], unfolded vc]
  from Tc have dc: "dispatch EC 2 sRootDone =
      Inr (if ([] = ([]::nat list)) \<noteq> ([3] = ([]::nat list))
           then markFailed 2 (if [3] = ([]::nat list) then errIncomingOpen else errOutgoingOpen) (snd (snd (prune 2 (dispatch_unpark EC 2 sRootDone))))
           else snd (snd (prune 2 (dispatch_unpark EC 2 sRootDone))))"
    and jc: "incoming (snd (snd (prune 2 (dispatch_unpark EC 2 sRootDone)))) = (incoming (dispatch_unpark EC 2 sRootDone))(2 := (if [] = ([]::nat list) then None else Some []))"
      "outgoing (snd (snd (prune 2 (dispatch_unpark EC 2 sRootDone)))) = (outgoing (dispatch_unpark EC 2 sRootDone))(2 := (if [3] = ([]::nat list) then None else Some [3]))"
    by blast+
  from dc have "dispatch EC 2 sRootDone = Inr (markFailed 2 errOutgoingOpen (snd (snd (prune 2 (dispatch_unpark EC 2 sRootDone)))))" by simp
  moreover have "err (edges (markFailed 2 errOutgoingOpen (snd (snd (prune 2 (dispatch_unpark EC 2 sRootDone))))) 2) = Some errOutgoingOpen"
    "incoming (markFailed 2 errOutgoingOpen (snd (snd (prune 2 (dispatch_unpark EC 2 sRootDone))))) 2 = None" "outgoing (markFailed 2 errOutgoingOpen (snd (snd (prune 2 (dispatch_unpark EC 2 sRootDone))))) 2 = Some [3]"
    using ec jc by (simp_all add: markFailed_def)
  ultimately have rc: "\<exists>s4. dispatch EC 2 sRootDone = Inr s4 \<and> err (edges s4 2) = Some errOutgoingOpen
         \<and> incoming s4 2 = None \<and> outgoing s4 2 = Some [3]"
    by blast
  have vd: "fst (prune 2 (dispatch_unpark EC 2 sC)) = [2]" "fst (snd (prune 2 (dispatch_unpark EC 2 sC))) = [3]"
    and kd: "\<not> keysDidChange (edges (snd (snd (prune 2 (dispatch_unpark EC 2 sC)))) 2)"
    and ed: "err (edges (snd (snd (prune 2 (dispatch_unpark EC 2 sC)))) 2) = None"
    by (simp_all add: prune_eq openIncoming_def openOutgoing_def inc_of_def out_of_def
        dispatch_unpark_EC Receive_def wit_defs st_defs)
  have id: "incoming (dispatch_unpark EC 2 sC) 2 = Some [2]"
    "outgoing (dispatch_unpark EC 2 sC) 2 = Some [3]"
    by (simp_all add: dispatch_unpark_EC inc_of_def out_of_def Receive_def wit_defs st_defs)
  have pd: "prune 2 (dispatch_unpark EC 2 sC) = (fst (prune 2 (dispatch_unpark EC 2 sC)), fst (snd (prune 2 (dispatch_unpark EC 2 sC))), snd (snd (prune 2 (dispatch_unpark EC 2 sC))))"
    by simp
  note Td = dispatch_postcondition_check [OF refl pd m [OF kd], unfolded vd]
  from Td have dd: "dispatch EC 2 sC =
      Inr (if ([2] = ([]::nat list)) \<noteq> ([3] = ([]::nat list))
           then markFailed 2 (if [3] = ([]::nat list) then errIncomingOpen else errOutgoingOpen) (snd (snd (prune 2 (dispatch_unpark EC 2 sC))))
           else snd (snd (prune 2 (dispatch_unpark EC 2 sC))))"
    and jd: "incoming (snd (snd (prune 2 (dispatch_unpark EC 2 sC)))) = (incoming (dispatch_unpark EC 2 sC))(2 := (if [2] = ([]::nat list) then None else Some [2]))"
      "outgoing (snd (snd (prune 2 (dispatch_unpark EC 2 sC)))) = (outgoing (dispatch_unpark EC 2 sC))(2 := (if [3] = ([]::nat list) then None else Some [3]))"
    by blast+
  from dd have "dispatch EC 2 sC = Inr ((snd (snd (prune 2 (dispatch_unpark EC 2 sC)))))" by simp
  moreover have "err (edges ((snd (snd (prune 2 (dispatch_unpark EC 2 sC))))) 2) = None"
    "incoming ((snd (snd (prune 2 (dispatch_unpark EC 2 sC))))) 2 = Some [2]" "outgoing ((snd (snd (prune 2 (dispatch_unpark EC 2 sC))))) 2 = Some [3]"
    using ed jd by (simp_all add: markFailed_def)
  ultimately have rd: "\<exists>s4. dispatch EC 2 sC = Inr s4 \<and> err (edges s4 2) = None
         \<and> incoming s4 2 = Some [2] \<and> outgoing s4 2 = Some [3]"
    by blast
  have ve: "fst (prune 2 (dispatch_unpark EC 2 sAllDone)) = [2]" "fst (snd (prune 2 (dispatch_unpark EC 2 sAllDone))) = []"
    and ke: "\<not> keysDidChange (edges (snd (snd (prune 2 (dispatch_unpark EC 2 sAllDone)))) 2)"
    and ee: "err (edges (snd (snd (prune 2 (dispatch_unpark EC 2 sAllDone)))) 2) = None"
    by (simp_all add: prune_eq openIncoming_def openOutgoing_def inc_of_def out_of_def
        dispatch_unpark_EC Receive_def wit_defs st_defs)
  have ie: "incoming (dispatch_unpark EC 2 sAllDone) 2 = Some [2]"
    "outgoing (dispatch_unpark EC 2 sAllDone) 2 = Some [3]"
    by (simp_all add: dispatch_unpark_EC inc_of_def out_of_def Receive_def wit_defs st_defs)
  have pe: "prune 2 (dispatch_unpark EC 2 sAllDone) = (fst (prune 2 (dispatch_unpark EC 2 sAllDone)), fst (snd (prune 2 (dispatch_unpark EC 2 sAllDone))), snd (snd (prune 2 (dispatch_unpark EC 2 sAllDone))))"
    by simp
  note Te = dispatch_postcondition_check [OF refl pe m [OF ke], unfolded ve]
  from Te have de: "dispatch EC 2 sAllDone =
      Inr (if ([2] = ([]::nat list)) \<noteq> ([] = ([]::nat list))
           then markFailed 2 (if [] = ([]::nat list) then errIncomingOpen else errOutgoingOpen) (snd (snd (prune 2 (dispatch_unpark EC 2 sAllDone))))
           else snd (snd (prune 2 (dispatch_unpark EC 2 sAllDone))))"
    and je: "incoming (snd (snd (prune 2 (dispatch_unpark EC 2 sAllDone)))) = (incoming (dispatch_unpark EC 2 sAllDone))(2 := (if [2] = ([]::nat list) then None else Some [2]))"
      "outgoing (snd (snd (prune 2 (dispatch_unpark EC 2 sAllDone)))) = (outgoing (dispatch_unpark EC 2 sAllDone))(2 := (if [] = ([]::nat list) then None else Some []))"
    by blast+
  from de have "dispatch EC 2 sAllDone = Inr (markFailed 2 errIncomingOpen (snd (snd (prune 2 (dispatch_unpark EC 2 sAllDone)))))" by simp
  moreover have "err (edges (markFailed 2 errIncomingOpen (snd (snd (prune 2 (dispatch_unpark EC 2 sAllDone))))) 2) = Some errIncomingOpen"
    "incoming (markFailed 2 errIncomingOpen (snd (snd (prune 2 (dispatch_unpark EC 2 sAllDone))))) 2 = Some [2]" "outgoing (markFailed 2 errIncomingOpen (snd (snd (prune 2 (dispatch_unpark EC 2 sAllDone))))) 2 = None"
    using ee je by (simp_all add: markFailed_def)
  ultimately have re: "\<exists>s4. dispatch EC 2 sAllDone = Inr s4 \<and> err (edges s4 2) = Some errIncomingOpen
         \<and> incoming s4 2 = Some [2] \<and> outgoing s4 2 = None"
    by blast
  from ra rb rc rd re show ?thesis by blast
qed

theorem merge_survivor_choice_witness:
  "hasOwner EC (ef sC) (edge (edges sC 2)) (edge (edges sC 1))
   \<and> mergeDecision EC 1 sC =
       (case mergeAndRedirect EC 1 2 (sC\<lparr>keyIndex := keyIndex sC\<rparr>) of
          Inl pn \<Rightarrow> Inl pn
        | Inr s2 \<Rightarrow> Inr (s2\<lparr>edges := (edges s2)(1 := (edges s2 1)\<lparr>keysDidChange := False\<rparr>)\<rparr>))
   \<and> (\<exists>s'. mergeDecision EC 1 sC = Inr s' \<and> inc_of s' 1 = [0, 2] \<and> out_of s' 1 = [1, 3]
         \<and> incoming s' 2 = None \<and> outgoing s' 2 = None
         \<and> Target (pipes s' 2) = Some 1 \<and> From (pipes s' 3) = Some 1
         \<and> ef s' = (ef sC)(E2 \<mapsto> 1))
   \<and> \<not> hasOwner ENoOwner (ef sC) (edge (edges sC 2)) (edge (edges sC 1))
   \<and> mergeDecision ENoOwner 1 sC =
       (case mergeAndRedirect ENoOwner 2 1 (sC\<lparr>keyIndex := keyIndex sC\<rparr>) of
          Inl pn \<Rightarrow> Inl pn
        | Inr s2 \<Rightarrow> Inr (s2\<lparr>edges := (edges s2)(1 := (edges s2 1)\<lparr>keysDidChange := False\<rparr>)\<rparr>))
   \<and> (\<exists>s'. mergeDecision ENoOwner 1 sC = Inr s' \<and> inc_of s' 2 = [2, 0] \<and> out_of s' 2 = [3, 1]
         \<and> incoming s' 1 = None \<and> outgoing s' 1 = None
         \<and> Target (pipes s' 0) = Some 2 \<and> From (pipes s' 1) = Some 2
         \<and> ef s' = (ef sC)(E1 \<mapsto> 2))"
proof -
  have c: "keysDidChange (edges sC 1)" "currentIndexKey EC (edges sC 1) = Some ''k''"
    "LoadOrStore EC ''k'' 1 (keyIndex sC) = (Some 2, keyIndex sC)"
    "\<not> isDep EC (edges sC 1) (edges sC 2)" "\<not> isDep EC (edges sC 2) (edges sC 1)"
    by (simp_all add: ex_defs)
  have n: "currentIndexKey ENoOwner (edges sC 1) = Some ''k''"
    "LoadOrStore ENoOwner ''k'' 1 (keyIndex sC) = (Some 2, keyIndex sC)"
    "\<not> isDep ENoOwner (edges sC 1) (edges sC 2)" "\<not> isDep ENoOwner (edges sC 2) (edges sC 1)"
    by (simp_all add: ENoOwner_def ex_defs)
  have h: "hasOwner EC (ef sC) (edge (edges sC 2)) (edge (edges sC 1))"
    by (simp add: ex_defs)
  have nh: "\<not> hasOwner ENoOwner (ef sC) (edge (edges sC 2)) (edge (edges sC 1))"
    by (simp add: ENoOwner_def)
  have i1: "(1::nat) = (if hasOwner EC (ef sC) (edge (edges sC 2)) (edge (edges sC 1)) then 1 else 2)"
    "(2::nat) = (if hasOwner EC (ef sC) (edge (edges sC 2)) (edge (edges sC 1)) then 2 else 1)"
    using h by simp_all
  have i2: "(2::nat) = (if hasOwner ENoOwner (ef sC) (edge (edges sC 2)) (edge (edges sC 1)) then 1 else 2)"
    "(1::nat) = (if hasOwner ENoOwner (ef sC) (edge (edges sC 2)) (edge (edges sC 1)) then 2 else 1)"
    using nh by simp_all
  have ne: "(2::nat) \<noteq> 1" by simp
  have ns: "\<not> skipsMerge sC 1 2" "\<not> skipsMerge sC 2 1"
    by (simp_all add: skipsMerge_def st_defs)
  have ok: "selectors_ok (cacheMap (edges sC 2)) 0 (deps (edges sC 2))"
    "selectors_ok (cacheMap (edges sC 1)) 0 (deps (edges sC 1))"
    by (simp_all add: st_defs selectorAt_def needsSelector_def)
  have l: "inc_of sC 1 = [0]" "inc_of sC 2 = [2]" "out_of sC 1 = [1]" "out_of sC 2 = [3]"
    by (simp_all add: sC_def inc_of_def out_of_def)
  have se: "setEdge EC (edge (edges sC 2)) 1 (ef sC) = (ef sC)(E2 \<mapsto> 1)"
    "setEdge ENoOwner (edge (edges sC 1)) 2 (ef sC) = (ef sC)(E1 \<mapsto> 2)"
    by (simp_all add: ENoOwner_def EC_def sC_def mkEdge_def)
  note A = merge_survivor_choice [OF c(1) c(2) c(3) c(4) c(5) i1, unfolded l se]
  note B = merge_survivor_choice [OF c(1) n(1) n(2) n(3) n(4) i2, unfolded l se]
  from A have A1: "mergeDecision EC 1 sC =
       (case mergeAndRedirect EC 1 2 (sC\<lparr>keyIndex := keyIndex sC\<rparr>) of
          Inl pn \<Rightarrow> Inl pn
        | Inr s2 \<Rightarrow> Inr (s2\<lparr>edges := (edges s2)(1 := (edges s2 1)\<lparr>keysDidChange := False\<rparr>)\<rparr>))"
    by blast
  from A [THEN conjunct2, THEN mp, OF conjI [OF ne conjI [OF ns(1) ok(1)]]] have A2: "\<exists>s'. mergeDecision EC 1 sC = Inr s' \<and> inc_of s' 1 = [0, 2]
         \<and> out_of s' 1 = [1, 3]
         \<and> incoming s' 2 = None \<and> outgoing s' 2 = None
         \<and> Target (pipes s' 2) = Some 1 \<and> From (pipes s' 3) = Some 1
         \<and> ef s' = (ef sC)(E2 \<mapsto> 1)"
    by simp
  from B have B1: "mergeDecision ENoOwner 1 sC =
       (case mergeAndRedirect ENoOwner 2 1 (sC\<lparr>keyIndex := keyIndex sC\<rparr>) of
          Inl pn \<Rightarrow> Inl pn
        | Inr s2 \<Rightarrow> Inr (s2\<lparr>edges := (edges s2)(1 := (edges s2 1)\<lparr>keysDidChange := False\<rparr>)\<rparr>))"
    by blast
  from B [THEN conjunct2, THEN mp, OF conjI [OF ne conjI [OF ns(2) ok(2)]]] have B2: "\<exists>s'. mergeDecision ENoOwner 1 sC = Inr s' \<and> inc_of s' 2 = [2, 0]
         \<and> out_of s' 2 = [3, 1]
         \<and> incoming s' 1 = None \<and> outgoing s' 1 = None
         \<and> Target (pipes s' 0) = Some 2 \<and> From (pipes s' 1) = Some 2
         \<and> ef s' = (ef sC)(E1 \<mapsto> 2)"
    by simp
  from h nh A1 A2 B1 B2 show ?thesis by blast
qed

theorem merge_skipped_for_ancestors_witness:
  "keysDidChange (edges sAnc 1)
   \<and> currentIndexKey EC (edges sAnc 1) = Some ''k''
   \<and> LoadOrStore EC ''k'' 1 (keyIndex sAnc) = (Some 3, keyIndex sAnc)
   \<and> isDep EC (edges sAnc 1) (edges sAnc 3)
   \<and> mergeDecision EC 1 sAnc =
       Inr (sAnc\<lparr>keyIndex := keyIndex sAnc,
                 edges := (edges sAnc)(1 := (edges sAnc 1)\<lparr>keysDidChange := False\<rparr>)\<rparr>)"
proof -
  have c: "keysDidChange (edges sAnc 1)" "currentIndexKey EC (edges sAnc 1) = Some ''k''"
    "LoadOrStore EC ''k'' 1 (keyIndex sAnc) = (Some 3, keyIndex sAnc)"
    "isDep EC (edges sAnc 1) (edges sAnc 3)"
    by (simp_all add: sAnc_def ex_defs)
  from c(4) have d: "isDep EC (edges sAnc 1) (edges sAnc 3) \<or> isDep EC (edges sAnc 3) (edges sAnc 1)"
    by blast
  from merge_skipped_for_ancestors [OF c(1) c(2) c(3) d]
  have "mergeDecision EC 1 sAnc =
       Inr (sAnc\<lparr>keyIndex := keyIndex sAnc,
                 edges := (edges sAnc)(1 := (edges sAnc 1)\<lparr>keysDidChange := False\<rparr>)\<rparr>)"
    by blast
  with c show ?thesis by blast
qed

lemma world_completes:
  assumes "\<not> Completed (SenderStatus (pipes s p))" and "p \<notin> waitClosed s"
  shows "run_events p [World (senderCompletes p st)] s = Inr (world_step p (senderCompletes p st) s)"
    and "p \<notin> waitClosed (world_step p (senderCompletes p st) s)"
    and "SenderStatus (pipes (world_step p (senderCompletes p st) s) p) = st"
  using assms by (simp_all add: world_step_def senderCompletes_def Let_def)

theorem build_behaviour_witness:
  "getEdge EC (ef sC) E9 = None
   \<and> build EC [] E9 sC = (Returned (Inl (InvalidRequest E9)), sC)
   \<and> getEdge EC (ef sC) E1 = Some 1
   \<and> fst (build EC [] E1 sC) = Blocked
   \<and> fst (build EC [CtxDone] E1 sC) = Blocked
   \<and> fst (build EC [World (senderCompletes 4 doneStatus)] E1 sC) = Blocked
   \<and> fst (build EC [World (senderCompletes 4 doneStatus), SendCompletion] E1 sC)
       = Returned (Inr (res9\<lparr>ID := 109\<rparr>))
   \<and> fst (build EC [World (senderCompletes 4 failedStatus), SendCompletion] E1 sC)
       = Returned (Inl (PipeError ''exit code: 1''))"
proof -
  have g9: "getEdge EC (ef sC) E9 = None"
    by (simp add: ex_defs E9_def E1_def E2_def E3_def vtx_def)
  have g1: "getEdge EC (ef sC) E1 = Some 1"
    by (simp add: ex_defs E1_def E2_def E3_def vtx_def)
  have pa: "pipeAlloc sC = 4" by (simp add: sC_def)
  have cl: "CloneCachedResult EC res9 = res9\<lparr>ID := 109\<rparr>"
    by (simp add: EC_def res9_def)
  have st: "Completed doneStatus" "Err doneStatus = None"
    "Value doneStatus = EdgeStateValue (Some res9)"
    "Completed failedStatus" "Err failedStatus = Some ''exit code: 1''"
    by (simp_all add: doneStatus_def failedStatus_def)
  from build_behaviour [of EC sC E9 "[]" 1 "''''" res9] g9
  have u: "build EC [] E9 sC = (Returned (Inl (InvalidRequest E9)), sC)" by blast
  from build_behaviour [of EC sC E1 "[]" 1 "''''" res9] g1
  have b0: "fst (build EC [] E1 sC) = Blocked" by auto
  have bc: "fst (build EC [CtxDone] E1 sC) = Blocked"
  proof -
    from build_behaviour [of EC sC E1 "[CtxDone]" 1 "''''" res9, unfolded pa, THEN conjunct2, THEN mp, OF g1]
    obtain s1 :: "(Edge \<rightharpoonup> edge_ref, string \<rightharpoonup> edge_ref) scheduler" where nc: "4 \<notin> waitClosed s1"
      and al: "\<forall>t. run_events 4 [CtxDone] s1 = Inr t \<longrightarrow>
                (fst (build EC [CtxDone] E1 sC) = Blocked \<longleftrightarrow> 4 \<notin> waitClosed t)"
      by (elim exE conjE) (rule that; (assumption | blast))
    from receiverCancel_total [of 4 s1] obtain t where r: "receiverCancel 4 s1 = Inr t"
      and k: "sched_kept s1 t" by blast
    from r have "run_events 4 [CtxDone] s1 = Inr t" by simp
    moreover from k nc have "4 \<notin> waitClosed t" by (simp add: sched_kept_def)
    ultimately show ?thesis using al by blast
  qed
  have bd: "fst (build EC [World (senderCompletes 4 doneStatus)] E1 sC) = Blocked
    \<and> fst (build EC [World (senderCompletes 4 doneStatus), SendCompletion] E1 sC)
       = Returned (Inr (res9\<lparr>ID := 109\<rparr>))"
  proof -
    let ?evs = "[World (senderCompletes 4 doneStatus)]"
    from build_behaviour [of EC sC E1 ?evs 1 "''''" res9, unfolded pa, THEN conjunct2, THEN mp, OF g1]
    obtain s1 :: "(Edge \<rightharpoonup> edge_ref, string \<rightharpoonup> edge_ref) scheduler" where ns: "\<not> Completed (SenderStatus (pipes s1 4))" and nc: "4 \<notin> waitClosed s1"
      and al: "\<forall>t. run_events 4 ?evs s1 = Inr t \<longrightarrow>
                (fst (build EC ?evs E1 sC) = Blocked \<longleftrightarrow> 4 \<notin> waitClosed t)
              \<and> (4 \<notin> waitClosed t \<and> Completed (SenderStatus (pipes t 4)) \<longrightarrow>
                    (\<exists>t'. (Err (SenderStatus (pipes t 4)) = None
                            \<and> Value (SenderStatus (pipes t 4)) = EdgeStateValue (Some res9) \<longrightarrow>
                            fst (build EC (?evs @ [SendCompletion]) E1 sC)
                              = Returned (Inr (CloneCachedResult EC res9)))))"
      by (elim exE conjE) (rule that; (assumption | blast))
    note w = world_completes [OF ns nc, of doneStatus]
    from al w(1) w(2) w(3) st show ?thesis by (simp add: cl)
  qed
  have bf: "fst (build EC [World (senderCompletes 4 failedStatus), SendCompletion] E1 sC)
       = Returned (Inl (PipeError ''exit code: 1''))"
  proof -
    let ?evs = "[World (senderCompletes 4 failedStatus)]"
    from build_behaviour [of EC sC E1 ?evs 1 "''exit code: 1''" res9, unfolded pa, THEN conjunct2, THEN mp, OF g1]
    obtain s1 :: "(Edge \<rightharpoonup> edge_ref, string \<rightharpoonup> edge_ref) scheduler" where ns: "\<not> Completed (SenderStatus (pipes s1 4))" and nc: "4 \<notin> waitClosed s1"
      and al: "\<forall>t. run_events 4 ?evs s1 = Inr t \<longrightarrow>
              (4 \<notin> waitClosed t \<and> Completed (SenderStatus (pipes t 4)) \<longrightarrow>
                    (\<exists>t'. (Err (SenderStatus (pipes t 4)) = Some ''exit code: 1'' \<longrightarrow>
                            fst (build EC (?evs @ [SendCompletion]) E1 sC)
                              = Returned (Inl (PipeError ''exit code: 1'')))))"
      by (elim exE conjE) (rule that; (assumption | blast))
    note w = world_completes [OF ns nc, of failedStatus]
    from al w(1) w(2) w(3) st show ?thesis by simp
  qed
  from g9 u g1 b0 bc bd bf show ?thesis by blast
qed

end
